theory Spec2Isabelle
  imports Main "HOL-Library.Log_Nat"
begin

section \<open>JavaScript strings\<close>

text \<open>
  A JavaScript string is a sequence of UTF-16 code units. The parser compares
  strings with \<^verbatim>\<open>===\<close> and \<^verbatim>\<open><=\<close>, both of which work on code units, so a
  string is modelled as the list of its code units. \<open>js\<close> turns an ASCII
  literal into such a list.
\<close>

type_synonym jsstring = "nat list"

definition js :: "string \<Rightarrow> jsstring" where
  "js s = map of_char s"

text \<open>
  White space as \<^verbatim>\<open>String.prototype.trim\<close> and \<^verbatim>\<open>parseFloat\<close> see it: the
  ECMAScript \<^verbatim>\<open>WhiteSpace\<close> and \<^verbatim>\<open>LineTerminator\<close> code points (TAB, LF, VT, FF,
  CR, SP, NBSP, U+1680, U+2000 to U+200A, U+2028, U+2029, U+202F, U+205F,
  U+3000, U+FEFF).
\<close>

definition is_js_whitespace :: "nat \<Rightarrow> bool" where
  "is_js_whitespace c \<longleftrightarrow>
     c \<in> {9, 10, 11, 12, 13, 32, 160, 5760, 8232, 8233, 8239, 8287, 12288, 65279}
     \<or> (8192 \<le> c \<and> c \<le> 8202)"

definition trim :: "jsstring \<Rightarrow> jsstring" where
  "trim s = rev (dropWhile is_js_whitespace (rev (dropWhile is_js_whitespace s)))"

definition is_digit :: "nat \<Rightarrow> bool" where
  "is_digit c \<longleftrightarrow> 48 \<le> c \<and> c \<le> 57"

definition digits_value :: "jsstring \<Rightarrow> nat" where
  "digits_value ds = foldl (\<lambda>v c. 10 * v + (c - 48)) 0 ds"

section \<open>JavaScript numbers\<close>

text \<open>
  A JavaScript number is an IEEE 754 double. A finite double is modelled by the
  rational it denotes (the two zeros are identified), and \<open>to_double\<close> rounds a
  rational to the nearest double, ties to even: 53 significant bits, exponents
  down to \<open>-1074\<close> (subnormals), overflow to infinity from \<open>2 ^ 1024\<close> on.
\<close>

datatype jsnumber = NaN | PosInfinity | NegInfinity | Finite rat

definition scale2 :: "int \<Rightarrow> rat" where
  "scale2 e = (if 0 \<le> e then 2 ^ nat e else 1 / 2 ^ nat (- e))"

definition floor_log2 :: "rat \<Rightarrow> int" where
  "floor_log2 a =
     (let k = bitlen (fst (quotient_of a)) - bitlen (snd (quotient_of a))
      in if scale2 k \<le> a then k else k - 1)"

definition round_half_even :: "rat \<Rightarrow> int" where
  "round_half_even q =
     (let f = \<lfloor>q\<rfloor>; r = q - of_int f
      in if r < 1 / 2 then f else if 1 / 2 < r then f + 1
         else if even f then f else f + 1)"

definition to_double :: "rat \<Rightarrow> jsnumber" where
  "to_double q =
     (if q = 0 then Finite 0
      else let a = \<bar>q\<bar>;
               e = max (floor_log2 a - 52) (- 1074);
               v = of_int (round_half_even (a / scale2 e)) * scale2 e
           in if 2 ^ 1024 \<le> v then (if 0 < q then PosInfinity else NegInfinity)
              else Finite (if 0 < q then v else - v))"

text \<open>The \<^verbatim>\<open>*\<close> operator on numbers.\<close>

fun js_times :: "jsnumber \<Rightarrow> jsnumber \<Rightarrow> jsnumber" where
  "js_times NaN _ = NaN"
| "js_times _ NaN = NaN"
| "js_times (Finite a) (Finite b) = to_double (a * b)"
| "js_times (Finite a) PosInfinity =
     (if a = 0 then NaN else if 0 < a then PosInfinity else NegInfinity)"
| "js_times (Finite a) NegInfinity =
     (if a = 0 then NaN else if 0 < a then NegInfinity else PosInfinity)"
| "js_times PosInfinity (Finite b) =
     (if b = 0 then NaN else if 0 < b then PosInfinity else NegInfinity)"
| "js_times NegInfinity (Finite b) =
     (if b = 0 then NaN else if 0 < b then NegInfinity else PosInfinity)"
| "js_times PosInfinity PosInfinity = PosInfinity"
| "js_times PosInfinity NegInfinity = NegInfinity"
| "js_times NegInfinity PosInfinity = NegInfinity"
| "js_times NegInfinity NegInfinity = PosInfinity"

definition isNaN :: "jsnumber \<Rightarrow> bool" where
  "isNaN x \<longleftrightarrow> x = NaN"

text \<open>
  \<^verbatim>\<open>parseFloat\<close>: skip leading white space, then read the longest prefix that
  is a \<^verbatim>\<open>StrDecimalLiteral\<close> (an optional sign, then \<^verbatim>\<open>Infinity\<close> or decimal
  digits with an optional fraction and an optional exponent); \<open>NaN\<close> when
  there is no such prefix. \<open>exponent_part\<close> reads an \<^verbatim>\<open>ExponentPart\<close> if one is
  there and gives \<open>0\<close> otherwise.
\<close>

definition exponent_part :: "jsstring \<Rightarrow> int" where
  "exponent_part r =
     (case r of
        [] \<Rightarrow> 0
      | c # r1 \<Rightarrow>
          if c = 101 \<or> c = 69 then
            (case r1 of
               [] \<Rightarrow> 0
             | d # r2 \<Rightarrow>
                 if d = 45 then
                   (if takeWhile is_digit r2 = [] then 0
                    else - int (digits_value (takeWhile is_digit r2)))
                 else if d = 43 then int (digits_value (takeWhile is_digit r2))
                 else int (digits_value (takeWhile is_digit r1)))
          else 0)"

definition unsigned_decimal :: "jsstring \<Rightarrow> rat option" where
  "unsigned_decimal u =
     (let ip = takeWhile is_digit u;
          r1 = dropWhile is_digit u;
          has_dot = (r1 \<noteq> [] \<and> hd r1 = 46);
          fp = (if has_dot then takeWhile is_digit (tl r1) else []);
          r2 = (if has_dot then dropWhile is_digit (tl r1) else r1)
      in if ip = [] \<and> fp = [] then None
         else let ex = exponent_part r2 - int (length fp);
                  m = of_nat (digits_value (ip @ fp))
              in Some (if 0 \<le> ex then m * 10 ^ nat ex else m / 10 ^ nat (- ex)))"

definition parseFloat :: "jsstring \<Rightarrow> jsnumber" where
  "parseFloat s =
     (let t = dropWhile is_js_whitespace s;
          neg = (t \<noteq> [] \<and> hd t = 45);
          u = (if t \<noteq> [] \<and> (hd t = 45 \<or> hd t = 43) then tl t else t)
      in if take 8 u = js ''Infinity'' then (if neg then NegInfinity else PosInfinity)
         else (case unsigned_decimal u of
                 None \<Rightarrow> NaN
               | Some q \<Rightarrow> to_double (if neg then - q else q)))"

text \<open>
  An absent attribute reaches \<^verbatim>\<open>parseFloat\<close> as \<^verbatim>\<open>undefined\<close>, which is first
  converted to the string \<^verbatim>\<open>"undefined"\<close>.
\<close>

definition to_string :: "jsstring option \<Rightarrow> jsstring" where
  "to_string v = (case v of None \<Rightarrow> js ''undefined'' | Some s \<Rightarrow> s)"

section \<open>Report model (dotnet-nunit-types.ts)\<close>

record Failure =
  stack_trace :: jsstring
  message :: jsstring

record TestCaseAttrs =
  classname :: jsstring
  tc_file :: "jsstring option"
  tc_name :: jsstring
  tc_duration :: jsstring
  result :: jsstring

record TestCase =
  tc_attrs :: TestCaseAttrs
  failure :: "Failure option"

record TestSuiteAttrs =
  ts_name :: jsstring
  tests :: jsstring
  errors :: jsstring
  failed :: jsstring
  skipped :: jsstring
  passed :: jsstring
  ts_duration :: jsstring

datatype TestSuite =
  TestSuite (ts_attrs: TestSuiteAttrs)
            (test_case: "TestCase list option")
            (test_suite: "TestSuite list option")

text \<open>
  The declarations give \<^verbatim>\<open>$\<close> and \<^verbatim>\<open>time\<close> of a test run as required, but the
  parser reads them as \<^verbatim>\<open>nunit['test-run'].$?.time\<close> and copes with either being
  absent, so both are optional here.
\<close>

record TestRunAttrs =
  time :: "jsstring option"

record TestRun =
  run_attrs :: "TestRunAttrs option"
  run_test_suite :: "TestSuite list option"

record NunitReport =
  test_run :: TestRun

subsection \<open>What the deserializer may deliver\<close>

text \<open>
  The declarations above are erased when the parser runs: a report that the
  deserializer delivers may lack any attribute, the attribute object \<^verbatim>\<open>$\<close> of
  an element, or the \<^verbatim>\<open>test-run\<close> root, and a failure may be text instead of an
  object, or an object without a stack trace or a message. The following
  types are the declared ones with every such part optional.
\<close>

datatype RawFailure =
  FailureObject (raw_stack_trace: "jsstring option") (raw_message: "jsstring option")
| FailureText jsstring

record RawTestCaseAttrs =
  raw_classname :: "jsstring option"
  raw_tc_name :: "jsstring option"
  raw_tc_duration :: "jsstring option"
  raw_result :: "jsstring option"

record RawTestCase =
  raw_tc_attrs :: "RawTestCaseAttrs option"
  raw_failure :: "RawFailure option"

record RawTestSuiteAttrs =
  raw_ts_name :: "jsstring option"
  raw_ts_duration :: "jsstring option"

datatype RawTestSuite =
  RawTestSuite (raw_ts_attrs: "RawTestSuiteAttrs option")
               (raw_test_case: "RawTestCase list option")
               (raw_test_suite: "RawTestSuite list option")

record RawTestRun =
  raw_run_attrs :: "TestRunAttrs option"
  raw_run_test_suite :: "RawTestSuite list option"

record RawReport =
  raw_test_run :: "RawTestRun option"

text \<open>A report of the declared type, as the value that the parser receives.\<close>

definition raw_case :: "TestCase \<Rightarrow> RawTestCase" where
  "raw_case tc =
     \<lparr>raw_tc_attrs = Some \<lparr>raw_classname = Some (classname (tc_attrs tc)),
                            raw_tc_name = Some (tc_name (tc_attrs tc)),
                            raw_tc_duration = Some (tc_duration (tc_attrs tc)),
                            raw_result = Some (result (tc_attrs tc))\<rparr>,
      raw_failure = map_option (\<lambda>f. FailureObject (Some (stack_trace f)) (Some (message f)))
                      (failure tc)\<rparr>"

primrec raw_suite :: "TestSuite \<Rightarrow> RawTestSuite" where
  "raw_suite (TestSuite attrs tcs nested) =
     RawTestSuite (Some \<lparr>raw_ts_name = Some (ts_name attrs),
                          raw_ts_duration = Some (ts_duration attrs)\<rparr>)
                  (map_option (map raw_case) tcs)
                  (map_option (map raw_suite) nested)"

definition raw_report :: "NunitReport \<Rightarrow> RawReport" where
  "raw_report nunit =
     \<lparr>raw_test_run = Some \<lparr>raw_run_attrs = run_attrs (test_run nunit),
                            raw_run_test_suite =
                              map_option (map raw_suite) (run_test_suite (test_run nunit))\<rparr>\<rparr>"

section \<open>Result model (test-results.ts, as the parser constructs it)\<close>

datatype TestExecutionResult = Success | Failed | Skipped

record TestCaseError =
  path :: "jsstring option"
  line :: "jsnumber option"
  details :: jsstring
  error_message :: "jsstring option"

record TestCaseResult =
  case_name :: jsstring
  case_result :: TestExecutionResult
  case_time :: jsnumber
  case_error :: "TestCaseError option"

text \<open>The name of a group is \<^verbatim>\<open>undefined\<close> when its cases have no class name.\<close>

record TestGroupResult =
  group_name :: "jsstring option"
  group_tests :: "TestCaseResult list"

record TestSuiteResult =
  suite_name :: jsstring
  groups :: "TestGroupResult list"
  suite_totalTime :: jsnumber
  depth :: nat

record TestRunResult =
  run_path :: jsstring
  suites :: "TestSuiteResult list"
  run_totalTime :: "jsnumber option"

section \<open>The parser (dotnet-nunit-parser.ts)\<close>

record ParseOptions =
  parseErrors :: bool
  opt_trackedFiles :: "jsstring list"

text \<open>
  What the parser can throw: the \<^verbatim>\<open>Error\<close> that it makes itself, with its
  message, and the \<^verbatim>\<open>TypeError\<close> of the runtime for a property read on
  \<^verbatim>\<open>undefined\<close>, a call of something that is not a function, or an iteration
  over something that is not iterable.
\<close>

datatype js_error = Error jsstring | TypeError

text \<open>
  The index \<^verbatim>\<open>trackedFiles\<close> is a plain object \<^verbatim>\<open>{}\<close> used as a dictionary from
  file names to lists of paths. The map holds its own properties. A read
  \<^verbatim>\<open>this.trackedFiles[fileName]\<close> gives the own property when there is one;
  otherwise, for the names that every object inherits from
  \<^verbatim>\<open>Object.prototype\<close>, it gives the inherited value, which is neither
  \<^verbatim>\<open>undefined\<close> nor an array; otherwise it gives \<^verbatim>\<open>undefined\<close>.
\<close>

record DotnetNunitParser =
  options :: ParseOptions
  trackedFiles :: "jsstring \<rightharpoonup> jsstring list"

definition object_prototype_properties :: "jsstring list" where
  "object_prototype_properties =
     [js ''constructor'', js ''__defineGetter__'', js ''__defineSetter__'',
      js ''hasOwnProperty'', js ''__lookupGetter__'', js ''__lookupSetter__'',
      js ''isPrototypeOf'', js ''propertyIsEnumerable'', js ''toString'', js ''valueOf'',
      js ''__proto__'', js ''toLocaleString'']"

datatype property = Undefined | Inherited | Files "jsstring list"

definition read_property :: "(jsstring \<rightharpoonup> jsstring list) \<Rightarrow> jsstring \<Rightarrow> property" where
  "read_property obj fileName =
     (case obj fileName of
        Some files \<Rightarrow> Files files
      | None \<Rightarrow> if fileName \<in> set object_prototype_properties then Inherited else Undefined)"

subsection \<open>Outcome classification\<close>

text \<open>
  \<^verbatim>\<open>if (test.failure) return 'failed'\<close> tests truthiness. The declared type of
  the field is \<^verbatim>\<open>Failure | undefined\<close> and every object is truthy, so the test
  is whether the field is present.
\<close>

definition getTestCaseResult :: "TestCase \<Rightarrow> TestExecutionResult" where
  "getTestCaseResult test =
     (if failure test \<noteq> None then Failed
      else if result (tc_attrs test) = js ''Skipped'' then Skipped
      else Success)"

subsection \<open>Grouping\<close>

text \<open>
  The local objects \<^verbatim>\<open>{describe, tests}\<close> of \<^verbatim>\<open>getGroups\<close>. One turn of its
  \<^verbatim>\<open>for\<close> loop is \<open>push_test\<close>: the first group whose \<open>describe\<close> is the
  case's class name receives the case at the end of its \<open>tests\<close>; when there
  is none, a new group holding the case is pushed.
\<close>

record Group =
  describe :: jsstring
  grp_tests :: "TestCase list"

fun push_test :: "TestCase \<Rightarrow> Group list \<Rightarrow> Group list" where
  "push_test tc [] = [\<lparr>describe = classname (tc_attrs tc), grp_tests = [tc]\<rparr>]"
| "push_test tc (g # gs) =
     (if describe g = classname (tc_attrs tc)
      then g\<lparr>grp_tests := grp_tests g @ [tc]\<rparr> # gs
      else g # push_test tc gs)"

text \<open>The \<^verbatim>\<open>TestCaseResult\<close> built for one case: its error is \<^verbatim>\<open>undefined\<close>.\<close>

definition test_result :: "TestCase \<Rightarrow> TestCaseResult" where
  "test_result tc =
     \<lparr>case_name = trim (tc_name (tc_attrs tc)),
      case_result = getTestCaseResult tc,
      case_time = js_times (parseFloat (tc_duration (tc_attrs tc))) (Finite 1000),
      case_error = None\<rparr>"

definition getGroups :: "TestSuite \<Rightarrow> TestGroupResult list" where
  "getGroups suite =
     (case test_case suite of
        None \<Rightarrow> []
      | Some tcs \<Rightarrow>
          map (\<lambda>grp. \<lparr>group_name = Some (describe grp),
                       group_tests = map test_result (grp_tests grp)\<rparr>)
              (foldl (\<lambda>grps tc. push_test tc grps) [] tcs))"

subsection \<open>Suite traversal\<close>

text \<open>
  \<^verbatim>\<open>suiteResults.push\<close> becomes appending to the accumulator, which is passed
  on and returned; the \<^verbatim>\<open>map\<close> over the suites is the recursion on the rest of
  the list.
\<close>

fun getTestSuiteResultRecursive ::
  "TestSuite list option \<Rightarrow> TestSuiteResult list \<Rightarrow> nat \<Rightarrow> TestSuiteResult list" where
  "getTestSuiteResultRecursive None suiteResults d = suiteResults"
| "getTestSuiteResultRecursive (Some []) suiteResults d = suiteResults"
| "getTestSuiteResultRecursive (Some (TestSuite attrs tcs nestedTestSuites # rest)) suiteResults d =
     (let ts = TestSuite attrs tcs nestedTestSuites;
          name = trim (ts_name attrs);
          time = js_times (parseFloat (ts_duration attrs)) (Finite 1000);
          grps = getGroups ts;
          sr = \<lparr>suite_name = name, groups = grps, suite_totalTime = time, depth = d\<rparr>;
          pushed = suiteResults @ [sr];
          descended =
            (if length grps = 0 then
               (if nestedTestSuites \<noteq> None
                then getTestSuiteResultRecursive nestedTestSuites pushed (d + 1)
                else pushed)
             else pushed)
      in getTestSuiteResultRecursive (Some rest) descended d)"

definition getTestRunResult :: "jsstring \<Rightarrow> NunitReport \<Rightarrow> TestRunResult" where
  "getTestRunResult filePath nunit =
     (let testSuites = run_test_suite (test_run nunit);
          suites = getTestSuiteResultRecursive testSuites [] 0;
          seconds = parseFloat (to_string (case run_attrs (test_run nunit) of
                                             None \<Rightarrow> None
                                           | Some a \<Rightarrow> time a));
          time = (if isNaN seconds then None else Some (js_times seconds (Finite 1000)))
      in \<lparr>run_path = filePath, suites = suites, run_totalTime = time\<rparr>)"

subsection \<open>Node's \<^verbatim>\<open>path.basename\<close> and \<^verbatim>\<open>path.dirname\<close> (POSIX)\<close>

text \<open>
  \<^verbatim>\<open>basename\<close> drops trailing slashes and returns what follows the last
  remaining slash. \<^verbatim>\<open>dirname\<close> scans from the end down to index 1, skips
  trailing slashes and the last component, and cuts the path at the slash it
  stops on; it gives \<^verbatim>\<open>.\<close> or \<^verbatim>\<open>/\<close> when there is no such slash.
\<close>

definition basename :: "jsstring \<Rightarrow> jsstring" where
  "basename p = rev (takeWhile (\<lambda>c. c \<noteq> 47) (dropWhile (\<lambda>c. c = 47) (rev p)))"

definition dirname :: "jsstring \<Rightarrow> jsstring" where
  "dirname p =
     (if p = [] then js ''.''
      else let hasRoot = (hd p = 47);
               r = dropWhile (\<lambda>c. c \<noteq> 47) (dropWhile (\<lambda>c. c = 47) (rev (tl p)));
               e = length r
           in if r = [] then (if hasRoot then js ''/'' else js ''.'')
              else if hasRoot \<and> e = 1 then js ''//''
              else take e p)"

subsection \<open>Array and string helpers\<close>

text \<open>
  \<^verbatim>\<open>s.split(/\./g)\<close> and \<^verbatim>\<open>s.split(/\//g)\<close>: the pieces between the occurrences
  of one character; the empty string gives one empty piece.
\<close>

fun split_on :: "nat \<Rightarrow> jsstring \<Rightarrow> jsstring \<Rightarrow> jsstring list" where
  "split_on sep cur [] = [cur]"
| "split_on sep cur (c # cs) =
     (if c = sep then cur # split_on sep [] cs else split_on sep (cur @ [c]) cs)"

definition split_char :: "nat \<Rightarrow> jsstring \<Rightarrow> jsstring list" where
  "split_char sep s = split_on sep [] s"

text \<open>
  \<^verbatim>\<open>stackTrace.split(/\r?\n/)\<close>: a line ends at LF or at CR LF; a CR that is not
  followed by LF stays in its line.
\<close>

fun split_lines_from :: "jsstring \<Rightarrow> jsstring \<Rightarrow> jsstring list" where
  "split_lines_from cur [] = [cur]"
| "split_lines_from cur [c] = (if c = 10 then [cur, []] else [cur @ [c]])"
| "split_lines_from cur (c # d # cs) =
     (if c = 13 \<and> d = 10 then cur # split_lines_from [] cs
      else if c = 10 then cur # split_lines_from [] (d # cs)
      else split_lines_from (cur @ [c]) (d # cs))"

definition split_lines :: "jsstring \<Rightarrow> jsstring list" where
  "split_lines s = split_lines_from [] s"

fun findIndex :: "('a \<Rightarrow> bool) \<Rightarrow> 'a list \<Rightarrow> nat option" where
  "findIndex P [] = None"
| "findIndex P (x # xs) = (if P x then Some 0 else map_option Suc (findIndex P xs))"

definition splice :: "nat \<Rightarrow> nat \<Rightarrow> 'a list \<Rightarrow> 'a list" where
  "splice start deleteCount xs = take start xs @ drop (start + deleteCount) xs"

text \<open>An index read \<^verbatim>\<open>xs[i]\<close>: \<^verbatim>\<open>undefined\<close> out of range.\<close>

definition at_index :: "'a list \<Rightarrow> nat \<Rightarrow> 'a option" where
  "at_index xs i = (if i < length xs then Some (xs ! i) else None)"

definition every :: "('a \<Rightarrow> nat \<Rightarrow> bool) \<Rightarrow> 'a list \<Rightarrow> bool" where
  "every f xs = list_all (\<lambda>(x, i). f x i) (zip xs [0..<length xs])"

subsection \<open>The frame pattern\<close>

text \<open>
  The regular expression \<^verbatim>\<open>/^at (.*)\((.*):(\d+)\)$/\<close> as a backtracking matcher
  in continuation style. \<open>greedy p k acc s\<close> is a greedy \<^verbatim>\<open>*\<close> over the
  characters that satisfy \<open>p\<close>: it first tries to take one more character and
  falls back to the continuation \<open>k\<close> on what it has taken. \<^verbatim>\<open>.\<close> matches any
  code unit but a line terminator, \<^verbatim>\<open>\d\<close> the ten ASCII digits. The pattern has
  no \<^verbatim>\<open>m\<close> flag, so \<^verbatim>\<open>^\<close> is the start and \<^verbatim>\<open>$\<close> the end of the string, and
  the match can only begin at index 0.
\<close>

definition is_line_terminator :: "nat \<Rightarrow> bool" where
  "is_line_terminator c \<longleftrightarrow> c = 10 \<or> c = 13 \<or> c = 8232 \<or> c = 8233"

definition dot :: "nat \<Rightarrow> bool" where
  "dot c \<longleftrightarrow> \<not> is_line_terminator c"

fun greedy ::
  "(nat \<Rightarrow> bool) \<Rightarrow> (jsstring \<Rightarrow> jsstring \<Rightarrow> 'a option) \<Rightarrow> jsstring \<Rightarrow> jsstring \<Rightarrow> 'a option" where
  "greedy p k acc [] = k acc []"
| "greedy p k acc (c # cs) =
     (if p c then
        (case greedy p k (acc @ [c]) cs of
           Some r \<Rightarrow> Some r
         | None \<Rightarrow> k acc (c # cs))
      else k acc (c # cs))"

definition greedy_plus ::
  "(nat \<Rightarrow> bool) \<Rightarrow> (jsstring \<Rightarrow> jsstring \<Rightarrow> 'a option) \<Rightarrow> jsstring \<Rightarrow> 'a option" where
  "greedy_plus p k s =
     (case s of [] \<Rightarrow> None | c # cs \<Rightarrow> if p c then greedy p k [c] cs else None)"

definition lit :: "nat \<Rightarrow> (jsstring \<Rightarrow> 'a option) \<Rightarrow> jsstring \<Rightarrow> 'a option" where
  "lit c k s = (case s of [] \<Rightarrow> None | d # r \<Rightarrow> if d = c then k r else None)"

definition match_re :: "jsstring \<Rightarrow> (jsstring \<times> jsstring \<times> jsstring) option" where
  "match_re str =
     (if take 3 str = js ''at '' then
        greedy dot (\<lambda>tracePath. lit 40
          (greedy dot (\<lambda>fileName. lit 58
            (greedy_plus is_digit (\<lambda>lineStr. lit 41
              (\<lambda>r. if r = [] then Some (tracePath, fileName, lineStr) else None))))
            [])) [] (drop 3 str)
      else None)"

text \<open>
  \<^verbatim>\<open>parseInt\<close> without a radix: leading white space, a sign, radix 16 after
  \<^verbatim>\<open>0x\<close> and 10 otherwise, then the longest run of digits; \<open>NaN\<close> when that
  run is empty.
\<close>

definition is_hex_digit :: "nat \<Rightarrow> bool" where
  "is_hex_digit c \<longleftrightarrow> (48 \<le> c \<and> c \<le> 57) \<or> (97 \<le> c \<and> c \<le> 102) \<or> (65 \<le> c \<and> c \<le> 70)"

definition hex_value :: "jsstring \<Rightarrow> nat" where
  "hex_value ds =
     foldl (\<lambda>v c. 16 * v + (if c \<le> 57 then c - 48 else if c \<le> 70 then c - 55 else c - 87)) 0 ds"

definition parseInt :: "jsstring \<Rightarrow> jsnumber" where
  "parseInt s =
     (let t = dropWhile is_js_whitespace s;
          neg = (t \<noteq> [] \<and> hd t = 45);
          u = (if t \<noteq> [] \<and> (hd t = 45 \<or> hd t = 43) then tl t else t);
          hex = (take 2 u = js ''0x'' \<or> take 2 u = js ''0X'');
          z = (if hex then takeWhile is_hex_digit (drop 2 u) else takeWhile is_digit u);
          n = (if hex then hex_value z else digits_value z)
      in if z = [] then NaN
         else to_double (if neg then - of_nat n else of_nat n))"

subsection \<open>Resolving a frame against the tracked files\<close>

text \<open>The test \<^verbatim>\<open>part[0] <= 'Z'\<close>: false for the empty string, whose \<^verbatim>\<open>part[0]\<close>
  is \<^verbatim>\<open>undefined\<close>, and a comparison of code units otherwise (\<^verbatim>\<open>'Z'\<close> is 90).\<close>

definition first_le_Z :: "jsstring \<Rightarrow> bool" where
  "first_le_Z part = (case part of [] \<Rightarrow> False | c # _ \<Rightarrow> c \<le> 90)"

definition package_parts :: "jsstring \<Rightarrow> jsstring list" where
  "package_parts tracePath =
     (let packageParts = split_char 46 tracePath
      in case findIndex first_le_Z packageParts of
           None \<Rightarrow> packageParts
         | Some packageIndex \<Rightarrow>
             splice packageIndex (length packageParts - packageIndex) packageParts)"

fun match_files :: "jsstring list \<Rightarrow> jsstring list \<Rightarrow> jsstring option" where
  "match_files packageParts [] = None"
| "match_files packageParts (filePath # files) =
     (let dirs = split_char 47 (dirname filePath)
      in if length packageParts > length dirs then match_files packageParts files
         else let dirs = (if length dirs > length packageParts
                          then splice 0 (length dirs - length packageParts) dirs
                          else dirs)
              in if every (\<lambda>part i. at_index dirs i = Some part) packageParts
                 then Some filePath
                 else match_files packageParts files)"

text \<open>
  \<^verbatim>\<open>getFilePath\<close> returns \<^verbatim>\<open>undefined\<close> when the read gives \<^verbatim>\<open>undefined\<close> and when
  the package prefix is empty. It then iterates over what the read gave: over
  an inherited value the \<^verbatim>\<open>for...of\<close> throws.
\<close>

definition getFilePath ::
  "DotnetNunitParser \<Rightarrow> jsstring \<Rightarrow> jsstring \<Rightarrow> js_error + jsstring option" where
  "getFilePath this tracePath fileName =
     (case read_property (trackedFiles this) fileName of
        Undefined \<Rightarrow> Inr None
      | files \<Rightarrow>
          let packageParts = package_parts tracePath
          in if length packageParts = 0 then Inr None
             else (case files of
                     Files fs \<Rightarrow> Inr (match_files packageParts fs)
                   | _ \<Rightarrow> Inl TypeError))"

fun scan_lines ::
  "DotnetNunitParser \<Rightarrow> jsstring list \<Rightarrow> js_error + (jsstring \<times> jsnumber) option" where
  "scan_lines this [] = Inr None"
| "scan_lines this (str # lines) =
     (case match_re str of
        None \<Rightarrow> scan_lines this lines
      | Some (tracePath, fileName, lineStr) \<Rightarrow>
          (case getFilePath this tracePath fileName of
             Inl e \<Rightarrow> Inl e
           | Inr None \<Rightarrow> scan_lines this lines
           | Inr (Some filePath) \<Rightarrow> Inr (Some (filePath, parseInt lineStr))))"

definition exceptionThrowSource ::
  "DotnetNunitParser \<Rightarrow> jsstring \<Rightarrow> js_error + (jsstring \<times> jsnumber) option" where
  "exceptionThrowSource this stackTrace = scan_lines this (split_lines stackTrace)"

text \<open>
  \<^verbatim>\<open>getTestCaseError\<close> on what the field \<^verbatim>\<open>failure\<close> may hold. \<^verbatim>\<open>!failure\<close> holds
  for an absent failure and for the empty text. The details are the stack
  trace of an object and the text otherwise; an object without a stack trace
  gives \<^verbatim>\<open>undefined\<close>, on which \<^verbatim>\<open>stackTrace.split\<close> throws. The message is the
  message of an object and \<^verbatim>\<open>undefined\<close> for a text.
\<close>

definition getTestCaseError ::
  "DotnetNunitParser \<Rightarrow> RawTestCase \<Rightarrow> js_error + TestCaseError option" where
  "getTestCaseError this tc =
     (if \<not> parseErrors (options this) then Inr None
      else case raw_failure tc of
             None \<Rightarrow> Inr None
           | Some (FailureText text) \<Rightarrow>
               if text = [] then Inr None
               else (case exceptionThrowSource this text of
                       Inl e \<Rightarrow> Inl e
                     | Inr src \<Rightarrow>
                         Inr (Some \<lparr>path = map_option fst src, line = map_option snd src,
                                    details = text, error_message = None\<rparr>))
           | Some (FailureObject None msg) \<Rightarrow> Inl TypeError
           | Some (FailureObject (Some trace) msg) \<Rightarrow>
               (case exceptionThrowSource this trace of
                  Inl e \<Rightarrow> Inl e
                | Inr src \<Rightarrow>
                    Inr (Some \<lparr>path = map_option fst src, line = map_option snd src,
                               details = trace, error_message = msg\<rparr>)))"

subsection \<open>Construction\<close>

text \<open>
  \<^verbatim>\<open>normalizeFilePath\<close> comes from \<^verbatim>\<open>utils/path-utils\<close> and is a parameter. For
  each tracked path the constructor reads the index at the base name, stores
  an empty list there when the read gives \<^verbatim>\<open>undefined\<close>, and calls \<^verbatim>\<open>push\<close> on
  what it has; an inherited value has no \<^verbatim>\<open>push\<close>, and the call throws.
\<close>

definition add_tracked ::
  "(jsstring \<Rightarrow> jsstring) \<Rightarrow> (jsstring \<rightharpoonup> jsstring list) \<Rightarrow> jsstring
   \<Rightarrow> js_error + (jsstring \<rightharpoonup> jsstring list)" where
  "add_tracked normalizeFilePath tracked filePath =
     (let fileName = basename filePath
      in case read_property tracked fileName of
           Undefined \<Rightarrow> Inr (tracked(fileName \<mapsto> [normalizeFilePath filePath]))
         | Files files \<Rightarrow> Inr (tracked(fileName \<mapsto> files @ [normalizeFilePath filePath]))
         | Inherited \<Rightarrow> Inl TypeError)"

fun add_all_tracked ::
  "(jsstring \<Rightarrow> jsstring) \<Rightarrow> (jsstring \<rightharpoonup> jsstring list) \<Rightarrow> jsstring list
   \<Rightarrow> js_error + (jsstring \<rightharpoonup> jsstring list)" where
  "add_all_tracked normalizeFilePath tracked [] = Inr tracked"
| "add_all_tracked normalizeFilePath tracked (filePath # filePaths) =
     (case add_tracked normalizeFilePath tracked filePath of
        Inl e \<Rightarrow> Inl e
      | Inr tracked' \<Rightarrow> add_all_tracked normalizeFilePath tracked' filePaths)"

definition new_DotnetNunitParser ::
  "(jsstring \<Rightarrow> jsstring) \<Rightarrow> ParseOptions \<Rightarrow> js_error + DotnetNunitParser" where
  "new_DotnetNunitParser normalizeFilePath opts =
     (case add_all_tracked normalizeFilePath Map.empty (opt_trackedFiles opts) of
        Inl e \<Rightarrow> Inl e
      | Inr tracked \<Rightarrow> Inr \<lparr>options = opts, trackedFiles = tracked\<rparr>)"

subsection \<open>The parser on what the deserializer delivers\<close>

text \<open>
  The functions \<open>getTestCaseResult\<close>, \<open>getGroups\<close>,
  \<open>getTestSuiteResultRecursive\<close> and \<open>getTestRunResult\<close> above are the
  parser on reports of the declared type. The functions of this subsection
  are the same source functions on the reports of the previous section, where
  a read of a property of \<^verbatim>\<open>undefined\<close> and a call of \<^verbatim>\<open>trim\<close> on \<^verbatim>\<open>undefined\<close>
  throw. The first error ends the operation.
\<close>

definition truthy :: "RawFailure option \<Rightarrow> bool" where
  "truthy v =
     (case v of
        None \<Rightarrow> False
      | Some (FailureText text) \<Rightarrow> text \<noteq> []
      | Some (FailureObject trace msg) \<Rightarrow> True)"

definition getTestCaseResult_raw :: "RawTestCase \<Rightarrow> js_error + TestExecutionResult" where
  "getTestCaseResult_raw test =
     (if truthy (raw_failure test) then Inr Failed
      else case raw_tc_attrs test of
             None \<Rightarrow> Inl TypeError
           | Some a \<Rightarrow>
               if raw_result a = Some (js ''Skipped'') then Inr Skipped else Inr Success)"

record RawGroup =
  raw_describe :: "jsstring option"
  raw_grp_tests :: "RawTestCase list"

fun push_test_raw :: "jsstring option \<Rightarrow> RawTestCase \<Rightarrow> RawGroup list \<Rightarrow> RawGroup list" where
  "push_test_raw cn tc [] = [\<lparr>raw_describe = cn, raw_grp_tests = [tc]\<rparr>]"
| "push_test_raw cn tc (g # gs) =
     (if raw_describe g = cn
      then g\<lparr>raw_grp_tests := raw_grp_tests g @ [tc]\<rparr> # gs
      else g # push_test_raw cn tc gs)"

text \<open>The \<^verbatim>\<open>for\<close> loop of \<^verbatim>\<open>getGroups\<close>: it reads \<^verbatim>\<open>tc.$.classname\<close> for every case.\<close>

fun group_cases :: "RawGroup list \<Rightarrow> RawTestCase list \<Rightarrow> js_error + RawGroup list" where
  "group_cases grps [] = Inr grps"
| "group_cases grps (tc # tcs) =
     (case raw_tc_attrs tc of
        None \<Rightarrow> Inl TypeError
      | Some a \<Rightarrow> group_cases (push_test_raw (raw_classname a) tc grps) tcs)"

definition test_result_raw :: "RawTestCase \<Rightarrow> js_error + TestCaseResult" where
  "test_result_raw tc =
     (case raw_tc_attrs tc of
        None \<Rightarrow> Inl TypeError
      | Some a \<Rightarrow>
          (case raw_tc_name a of
             None \<Rightarrow> Inl TypeError
           | Some n \<Rightarrow>
               (case getTestCaseResult_raw tc of
                  Inl e \<Rightarrow> Inl e
                | Inr r \<Rightarrow>
                    Inr \<lparr>case_name = trim n,
                         case_result = r,
                         case_time = js_times (parseFloat (to_string (raw_tc_duration a)))
                                       (Finite 1000),
                         case_error = None\<rparr>)))"

text \<open>A \<^verbatim>\<open>map\<close> whose callback may throw: the results in order, or the first error.\<close>

fun collect :: "('e + 'a) list \<Rightarrow> 'e + 'a list" where
  "collect [] = Inr []"
| "collect (Inl e # rs) = Inl e"
| "collect (Inr x # rs) = (case collect rs of Inl e \<Rightarrow> Inl e | Inr xs \<Rightarrow> Inr (x # xs))"

definition getGroups_raw :: "RawTestSuite \<Rightarrow> js_error + TestGroupResult list" where
  "getGroups_raw suite =
     (case raw_test_case suite of
        None \<Rightarrow> Inr []
      | Some tcs \<Rightarrow>
          (case group_cases [] tcs of
             Inl e \<Rightarrow> Inl e
           | Inr grps \<Rightarrow>
               collect (map (\<lambda>grp. case collect (map test_result_raw (raw_grp_tests grp)) of
                                     Inl e \<Rightarrow> Inl e
                                   | Inr results \<Rightarrow>
                                       Inr \<lparr>group_name = raw_describe grp,
                                            group_tests = results\<rparr>)
                            grps)))"

fun getTestSuiteResultRecursive_raw ::
  "RawTestSuite list option \<Rightarrow> TestSuiteResult list \<Rightarrow> nat
   \<Rightarrow> js_error + TestSuiteResult list" where
  "getTestSuiteResultRecursive_raw None suiteResults d = Inr suiteResults"
| "getTestSuiteResultRecursive_raw (Some []) suiteResults d = Inr suiteResults"
| "getTestSuiteResultRecursive_raw (Some (RawTestSuite attrs tcs nestedTestSuites # rest))
       suiteResults d =
     (case attrs of
        None \<Rightarrow> Inl TypeError
      | Some a \<Rightarrow>
          (case raw_ts_name a of
             None \<Rightarrow> Inl TypeError
           | Some n \<Rightarrow>
               (case getGroups_raw (RawTestSuite attrs tcs nestedTestSuites) of
                  Inl e \<Rightarrow> Inl e
                | Inr grps \<Rightarrow>
                    (case (if length grps = 0 \<and> nestedTestSuites \<noteq> None
                           then getTestSuiteResultRecursive_raw nestedTestSuites
                                  (suiteResults
                                   @ [\<lparr>suite_name = trim n, groups = grps,
                                        suite_totalTime =
                                          js_times (parseFloat (to_string (raw_ts_duration a)))
                                            (Finite 1000),
                                        depth = d\<rparr>])
                                  (d + 1)
                           else Inr (suiteResults
                                     @ [\<lparr>suite_name = trim n, groups = grps,
                                          suite_totalTime =
                                            js_times (parseFloat (to_string (raw_ts_duration a)))
                                              (Finite 1000),
                                          depth = d\<rparr>])) of
                       Inl e \<Rightarrow> Inl e
                     | Inr descended \<Rightarrow>
                         getTestSuiteResultRecursive_raw (Some rest) descended d))))"

definition getTestRunResult_raw :: "jsstring \<Rightarrow> RawReport \<Rightarrow> js_error + TestRunResult" where
  "getTestRunResult_raw filePath nunit =
     (case raw_test_run nunit of
        None \<Rightarrow> Inl TypeError
      | Some run \<Rightarrow>
          (case getTestSuiteResultRecursive_raw (raw_run_test_suite run) [] 0 of
             Inl e \<Rightarrow> Inl e
           | Inr results \<Rightarrow>
               let seconds = parseFloat (to_string (case raw_run_attrs run of
                                                      None \<Rightarrow> None
                                                    | Some a \<Rightarrow> time a));
                   time = (if isNaN seconds then None
                           else Some (js_times seconds (Finite 1000)))
               in Inr \<lparr>run_path = filePath, suites = results, run_totalTime = time\<rparr>))"

subsection \<open>The parse operation\<close>

text \<open>
  \<^verbatim>\<open>parseStringPromise\<close> comes from the XML library and is a parameter. A
  promise is modelled by its outcome: \<open>Inl\<close> for a rejection, \<open>Inr\<close> for the
  value. \<open>render\<close> is the string that the template literal makes of the
  rejection reason.
\<close>

definition getNunitReport ::
  "(jsstring \<Rightarrow> 'e + RawReport) \<Rightarrow> ('e \<Rightarrow> jsstring) \<Rightarrow> jsstring \<Rightarrow> jsstring
   \<Rightarrow> js_error + RawReport" where
  "getNunitReport parseStringPromise render filePath content =
     (case parseStringPromise content of
        Inr report \<Rightarrow> Inr report
      | Inl e \<Rightarrow> Inl (Error (js ''Invalid XML at '' @ filePath @ [10, 10] @ render e)))"

definition parse ::
  "(jsstring \<Rightarrow> 'e + RawReport) \<Rightarrow> ('e \<Rightarrow> jsstring) \<Rightarrow> jsstring \<Rightarrow> jsstring
   \<Rightarrow> js_error + TestRunResult" where
  "parse parseStringPromise render filePath content =
     (case getNunitReport parseStringPromise render filePath content of
        Inl err \<Rightarrow> Inl err
      | Inr reportOrSuite \<Rightarrow> getTestRunResult_raw filePath reportOrSuite)"

section \<open>Notions of the specification\<close>

text \<open>
  The definitions of this section are not part of the parser. They state what
  the specification describes, and the theorems below compare the parser with
  them.
\<close>

text \<open>
  First-seen order: each element is kept the first time it occurs, later
  occurrences are dropped.
\<close>

primrec first_seen_from :: "'a list \<Rightarrow> 'a list \<Rightarrow> 'a list" where
  "first_seen_from seen [] = []"
| "first_seen_from seen (x # xs) =
     (if x \<in> set seen then first_seen_from seen xs
      else x # first_seen_from (seen @ [x]) xs)"

definition first_seen :: "'a list \<Rightarrow> 'a list" where
  "first_seen xs = first_seen_from [] xs"

text \<open>The cases of one class name, in their original order.\<close>

definition cases_of :: "jsstring \<Rightarrow> TestCase list \<Rightarrow> TestCase list" where
  "cases_of c tcs = filter (\<lambda>tc. classname (tc_attrs tc) = c) tcs"

text \<open>The result of one suite at a depth.\<close>

definition suite_result :: "nat \<Rightarrow> TestSuite \<Rightarrow> TestSuiteResult" where
  "suite_result d ts =
     \<lparr>suite_name = trim (ts_name (ts_attrs ts)),
      groups = getGroups ts,
      suite_totalTime = js_times (parseFloat (ts_duration (ts_attrs ts))) (Finite 1000),
      depth = d\<rparr>"

text \<open>
  The suites that the traversal visits, each with its depth, in pre-order: a
  suite comes before its nested suites, and the nested suites are visited, one
  level deeper, only when the suite has produced no group.
\<close>

fun pre_order :: "nat \<Rightarrow> TestSuite \<Rightarrow> (TestSuite \<times> nat) list" where
  "pre_order d (TestSuite attrs tcs None) = [(TestSuite attrs tcs None, d)]"
| "pre_order d (TestSuite attrs tcs (Some nested)) =
     (TestSuite attrs tcs (Some nested), d)
     # (if getGroups (TestSuite attrs tcs (Some nested)) = []
        then concat (map (pre_order (d + 1)) nested)
        else [])"

definition visited :: "nat \<Rightarrow> TestSuite list option \<Rightarrow> (TestSuite \<times> nat) list" where
  "visited d testSuites =
     (case testSuites of None \<Rightarrow> [] | Some tss \<Rightarrow> concat (map (pre_order d) tss))"

text \<open>
  A tracked path matches a package prefix when it has at least as many
  directory components as the prefix has segments and its last components are
  the segments of the prefix, in order.
\<close>

definition dir_suffix_matches :: "jsstring list \<Rightarrow> jsstring \<Rightarrow> bool" where
  "dir_suffix_matches prefix filePath =
     (let dirs = split_char 47 (dirname filePath)
      in length prefix \<le> length dirs \<and> drop (length dirs - length prefix) dirs = prefix)"

text \<open>
  The parts of a delivered report that the parser reads without a guard: the
  \<^verbatim>\<open>test-run\<close> root, the attribute object and the name of every suite that
  the traversal visits, and the attribute object and the name of every test
  case of such a suite. The nested suites of a suite are visited only when the
  suite has no test case.
\<close>

definition case_readable :: "RawTestCase \<Rightarrow> bool" where
  "case_readable tc = (case raw_tc_attrs tc of None \<Rightarrow> False | Some a \<Rightarrow> raw_tc_name a \<noteq> None)"

fun suites_readable :: "RawTestSuite list option \<Rightarrow> bool" where
  "suites_readable None = True"
| "suites_readable (Some []) = True"
| "suites_readable (Some (RawTestSuite attrs tcs nestedTestSuites # rest)) =
     ((case attrs of None \<Rightarrow> False | Some a \<Rightarrow> raw_ts_name a \<noteq> None)
      \<and> list_all case_readable (case tcs of None \<Rightarrow> [] | Some cases \<Rightarrow> cases)
      \<and> (if tcs = None \<or> tcs = Some [] then suites_readable nestedTestSuites else True)
      \<and> suites_readable (Some rest))"

definition report_readable :: "RawReport \<Rightarrow> bool" where
  "report_readable nunit =
     (case raw_test_run nunit of
        None \<Rightarrow> False
      | Some run \<Rightarrow> suites_readable (raw_run_test_suite run))"

section \<open>Example inputs\<close>

text \<open>
  A parser with error parsing enabled and one tracked file, as the constructor
  builds it, a failed test case whose stack trace has one frame in that file,
  and attributes of a suite.
\<close>

definition example_parser :: DotnetNunitParser where
  "example_parser =
     \<lparr>options = \<lparr>parseErrors = True, opt_trackedFiles = [js ''src/com/foo/Bar.java'']\<rparr>,
      trackedFiles = [js ''Bar.java'' \<mapsto> [js ''src/com/foo/Bar.java'']]\<rparr>"

definition example_case :: TestCase where
  "example_case =
     \<lparr>tc_attrs = \<lparr>classname = js ''com.foo.BarTest'', tc_file = None, tc_name = js ''baz fails'',
                   tc_duration = js ''0.5'', result = js ''Failed''\<rparr>,
      failure = Some \<lparr>stack_trace = js ''at com.foo.Bar.baz(Bar.java:42)'',
                       message = js ''boom''\<rparr>\<rparr>"

definition example_suite_attrs :: TestSuiteAttrs where
  "example_suite_attrs =
     \<lparr>ts_name = js ''BarTest'', tests = js ''1'', errors = js ''0'', failed = js ''1'',
      skipped = js ''0'', passed = js ''0'', ts_duration = js ''0.5''\<rparr>"

text \<open>
  Two more parsers, as the constructor builds them: one whose tracked file lies
  directly under \<^verbatim>\<open>src\<close>, and one whose tracked file lies in a directory named
  \<^verbatim>\<open>$gen\<close>.
\<close>

definition example_flat_parser :: DotnetNunitParser where
  "example_flat_parser =
     \<lparr>options = \<lparr>parseErrors = True, opt_trackedFiles = [js ''src/Bar.java'']\<rparr>,
      trackedFiles = [js ''Bar.java'' \<mapsto> [js ''src/Bar.java'']]\<rparr>"

definition example_gen_parser :: DotnetNunitParser where
  "example_gen_parser =
     \<lparr>options = \<lparr>parseErrors = True, opt_trackedFiles = [js ''src/com/$gen/Bar.java'']\<rparr>,
      trackedFiles = [js ''Bar.java'' \<mapsto> [js ''src/com/$gen/Bar.java'']]\<rparr>"

text \<open>
  A report of the declared type with one suite and one passing case, whose
  name has white space around it, and a report whose only suite has no
  attributes.
\<close>

definition example_report :: NunitReport where
  "example_report =
     \<lparr>test_run =
        \<lparr>run_attrs = Some \<lparr>time = Some (js ''1.5'')\<rparr>,
         run_test_suite =
           Some [TestSuite
                   \<lparr>ts_name = js ''BarTest'', tests = js ''1'', errors = js ''0'',
                     failed = js ''0'', skipped = js ''0'', passed = js ''1'',
                     ts_duration = js ''0.5''\<rparr>
                   (Some [\<lparr>tc_attrs = \<lparr>classname = js ''com.foo.BarTest'', tc_file = None,
                                         tc_name = js '' baz passes '', tc_duration = js ''0.5'',
                                         result = js ''Passed''\<rparr>,
                            failure = None\<rparr>])
                   None]\<rparr>\<rparr>"

definition example_bare_suite_report :: RawReport where
  "example_bare_suite_report =
     \<lparr>raw_test_run =
        Some \<lparr>raw_run_attrs = None,
              raw_run_test_suite = Some [RawTestSuite None None None]\<rparr>\<rparr>"

text \<open>
  A deserializer that rejects a text with an unclosed tag, delivers the report
  without attributes for a text whose only suite is an empty element, and
  delivers the report of the declared type for every other text.
\<close>

definition example_deserializer :: "jsstring \<Rightarrow> jsstring + RawReport" where
  "example_deserializer content =
     (if content = js ''<test-run'' then Inl (js ''Error: Unclosed root tag'')
      else if content = js ''<test-run><test-suite/></test-run>''
      then Inr example_bare_suite_report
      else Inr (raw_report example_report))"

definition example_plain_case :: TestCase where
  "example_plain_case =
     \<lparr>tc_attrs = \<lparr>classname = js ''com.foo.BarTest'', tc_file = None, tc_name = js ''baz fails'',
                   tc_duration = js ''0.5'', result = js ''Failed''\<rparr>,
      failure = Some \<lparr>stack_trace = js ''expected 1 but was 2'', message = js ''boom''\<rparr>\<rparr>"

section \<open>Evaluation of the number model\<close>

lemma to_double_three_halves: "to_double (3 / 2) = Finite (3 / 2)"
  by code_simp

lemma to_double_1500: "to_double 1500 = Finite 1500"
  by code_simp

text \<open>One tenth is rounded to the double nearest to it.\<close>

lemma to_double_tenth:
  "to_double (1 / 10) = Finite (3602879701896397 / 36028797018963968)"
  by code_simp

lemma to_double_not_NaN: "to_double q \<noteq> NaN"
  by (simp add: to_double_def Let_def)

lemma times_1000_NaN_iff: "js_times x (Finite 1000) = NaN \<longleftrightarrow> x = NaN"
  by (cases x) (simp_all add: to_double_not_NaN)

lemmas parseFloat_eval =
  parseFloat_def js_def is_js_whitespace_def unsigned_decimal_def is_digit_def
  exponent_part_def digits_value_def Let_def

lemma parseFloat_one_and_a_half: "parseFloat (js ''1.5'') = Finite (3 / 2)"
  by (simp add: parseFloat_eval to_double_three_halves)

lemma parseFloat_undefined: "parseFloat (js ''undefined'') = NaN"
  by (simp add: parseFloat_eval)

lemma parseFloat_letters: "parseFloat (js ''abc'') = NaN"
  by (simp add: parseFloat_eval)

section \<open>Outcome classification\<close>

text \<open>
  Claim C5. The outcome of a test case follows a fixed priority. A case with a
  failure element is \<open>Failed\<close> whatever its result attribute is. Without a
  failure element, the result attribute \<^verbatim>\<open>Skipped\<close>, compared exactly, gives
  \<open>Skipped\<close>; lower-case \<^verbatim>\<open>skipped\<close> does not; and every other result
  attribute gives \<open>Success\<close>.
\<close>

theorem getTestCaseResult_priority:
  "getTestCaseResult \<lparr>tc_attrs = a, failure = Some f\<rparr> = Failed
   \<and> getTestCaseResult \<lparr>tc_attrs = a\<lparr>result := js ''Skipped''\<rparr>, failure = None\<rparr> = Skipped
   \<and> getTestCaseResult \<lparr>tc_attrs = a\<lparr>result := js ''skipped''\<rparr>, failure = None\<rparr> = Success
   \<and> (r \<noteq> js ''Skipped'' \<longrightarrow>
        getTestCaseResult \<lparr>tc_attrs = a\<lparr>result := r\<rparr>, failure = None\<rparr> = Success)"
  by (simp add: getTestCaseResult_def js_def)

theorem getTestCaseResult_priority_witness:
  "js ''Passed'' \<noteq> js ''Skipped''
   \<and> getTestCaseResult
        \<lparr>tc_attrs = \<lparr>classname = js ''Suite'', tc_file = None, tc_name = js ''t1'',
                      tc_duration = js ''0.5'', result = js ''Passed''\<rparr>,
         failure = None\<rparr> = Success"
  using getTestCaseResult_priority
    [of "\<lparr>classname = js ''Suite'', tc_file = None, tc_name = js ''t1'',
          tc_duration = js ''0.5'', result = js ''Passed''\<rparr>" undefined "js ''Passed''"]
  by (simp add: js_def)

section \<open>Grouping\<close>

lemma push_test_absent:
  "classname (tc_attrs tc) \<notin> set (map describe gs) \<Longrightarrow>
   push_test tc gs = gs @ [\<lparr>describe = classname (tc_attrs tc), grp_tests = [tc]\<rparr>]"
  by (induction gs) auto

lemma map_push_absent:
  "c \<notin> set (map describe gs) \<Longrightarrow>
   map (\<lambda>g. if describe g = c then g\<lparr>grp_tests := grp_tests g @ [tc]\<rparr> else g) gs = gs"
  by (induction gs) auto

lemma push_test_present:
  "classname (tc_attrs tc) \<in> set (map describe gs) \<Longrightarrow> distinct (map describe gs) \<Longrightarrow>
   push_test tc gs =
     map (\<lambda>g. if describe g = classname (tc_attrs tc)
              then g\<lparr>grp_tests := grp_tests g @ [tc]\<rparr> else g) gs"
proof (induction gs)
  case Nil
  then show ?case by simp
next
  case (Cons g gs)
  show ?case
  proof (cases "describe g = classname (tc_attrs tc)")
    case True
    with Cons.prems have "classname (tc_attrs tc) \<notin> set (map describe gs)"
      by auto
    then show ?thesis using True by (simp add: map_push_absent)
  next
    case False
    with Cons show ?thesis by auto
  qed
qed

lemma first_seen_from_set:
  "set (first_seen_from seen xs) = set xs - set seen"
  by (induction xs arbitrary: seen) auto

lemma first_seen_from_fresh:
  "set (first_seen_from seen xs) \<inter> set seen = {}"
  by (auto simp: first_seen_from_set)

lemma first_seen_from_distinct:
  "distinct (first_seen_from seen xs)"
  by (induction xs arbitrary: seen) (auto simp: first_seen_from_set)

lemma first_seen_from_snoc:
  "first_seen_from seen (xs @ [x]) =
     first_seen_from seen xs @ (if x \<in> set seen \<union> set xs then [] else [x])"
  by (induction xs arbitrary: seen) auto

lemma foldl_push_test:
  "distinct (map describe gs) \<Longrightarrow>
   foldl (\<lambda>grps tc. push_test tc grps) gs tcs =
     map (\<lambda>g. g\<lparr>grp_tests := grp_tests g @ cases_of (describe g) tcs\<rparr>) gs
     @ map (\<lambda>c. \<lparr>describe = c, grp_tests = cases_of c tcs\<rparr>)
           (first_seen_from (map describe gs) (map (\<lambda>tc. classname (tc_attrs tc)) tcs))"
proof (induction tcs arbitrary: gs)
  case Nil
  then show ?case by (simp add: cases_of_def)
next
  case (Cons tc tcs)
  let ?c = "classname (tc_attrs tc)"
  let ?cs = "map (\<lambda>tc. classname (tc_attrs tc)) tcs"
  show ?case
  proof (cases "?c \<in> set (map describe gs)")
    case True
    let ?gs' = "map (\<lambda>g. if describe g = ?c then g\<lparr>grp_tests := grp_tests g @ [tc]\<rparr> else g) gs"
    have p: "push_test tc gs = ?gs'"
      using push_test_present [OF True Cons.prems] .
    have k: "map describe ?gs' = map describe gs"
      by (induction gs) auto
    have d: "distinct (map describe ?gs')"
      unfolding k by (rule Cons.prems)
    have m: "map (\<lambda>g. g\<lparr>grp_tests := grp_tests g @ cases_of (describe g) tcs\<rparr>) ?gs'
             = map (\<lambda>g. g\<lparr>grp_tests := grp_tests g @ cases_of (describe g) (tc # tcs)\<rparr>) gs"
      by (induction gs) (auto simp: cases_of_def)
    have n: "map (\<lambda>c. \<lparr>describe = c, grp_tests = cases_of c tcs\<rparr>)
                 (first_seen_from (map describe gs) ?cs)
             = map (\<lambda>c. \<lparr>describe = c, grp_tests = cases_of c (tc # tcs)\<rparr>)
                   (first_seen_from (map describe gs) ?cs)"
    proof (rule map_cong [OF refl])
      fix c assume "c \<in> set (first_seen_from (map describe gs) ?cs)"
      with first_seen_from_fresh [of "map describe gs" ?cs] True have "c \<noteq> ?c"
        by auto
      then show "\<lparr>describe = c, grp_tests = cases_of c tcs\<rparr>
                 = \<lparr>describe = c, grp_tests = cases_of c (tc # tcs)\<rparr>"
        by (auto simp: cases_of_def)
    qed
    have "foldl (\<lambda>grps tc. push_test tc grps) gs (tc # tcs)
          = foldl (\<lambda>grps tc. push_test tc grps) ?gs' tcs"
      using p by simp
    also have "\<dots> = map (\<lambda>g. g\<lparr>grp_tests := grp_tests g @ cases_of (describe g) tcs\<rparr>) ?gs'
        @ map (\<lambda>c. \<lparr>describe = c, grp_tests = cases_of c tcs\<rparr>)
              (first_seen_from (map describe ?gs') ?cs)"
      using Cons.IH [OF d] .
    also have "\<dots> = map (\<lambda>g. g\<lparr>grp_tests := grp_tests g @ cases_of (describe g) (tc # tcs)\<rparr>) gs
        @ map (\<lambda>c. \<lparr>describe = c, grp_tests = cases_of c (tc # tcs)\<rparr>)
              (first_seen_from (map describe gs) ?cs)"
      by (simp only: m n k)
    finally show ?thesis using True by simp
  next
    case False
    let ?g = "\<lparr>describe = ?c, grp_tests = [tc]\<rparr>"
    have p: "push_test tc gs = gs @ [?g]"
      using push_test_absent [OF False] .
    have d: "distinct (map describe (gs @ [?g]))"
      using Cons.prems False by simp
    have m: "map (\<lambda>g. g\<lparr>grp_tests := grp_tests g @ cases_of (describe g) tcs\<rparr>) gs
             = map (\<lambda>g. g\<lparr>grp_tests := grp_tests g @ cases_of (describe g) (tc # tcs)\<rparr>) gs"
    proof (rule map_cong [OF refl])
      fix g assume "g \<in> set gs"
      with False have "describe g \<noteq> ?c" by force
      then show "g\<lparr>grp_tests := grp_tests g @ cases_of (describe g) tcs\<rparr>
                 = g\<lparr>grp_tests := grp_tests g @ cases_of (describe g) (tc # tcs)\<rparr>"
        by (auto simp: cases_of_def)
    qed
    have n: "map (\<lambda>c. \<lparr>describe = c, grp_tests = cases_of c tcs\<rparr>)
                 (first_seen_from (map describe gs @ [?c]) ?cs)
             = map (\<lambda>c. \<lparr>describe = c, grp_tests = cases_of c (tc # tcs)\<rparr>)
                   (first_seen_from (map describe gs @ [?c]) ?cs)"
    proof (rule map_cong [OF refl])
      fix c assume "c \<in> set (first_seen_from (map describe gs @ [?c]) ?cs)"
      with first_seen_from_fresh [of "map describe gs @ [?c]" ?cs] have "c \<noteq> ?c"
        by auto
      then show "\<lparr>describe = c, grp_tests = cases_of c tcs\<rparr>
                 = \<lparr>describe = c, grp_tests = cases_of c (tc # tcs)\<rparr>"
        by (auto simp: cases_of_def)
    qed
    have "foldl (\<lambda>grps tc. push_test tc grps) gs (tc # tcs)
          = foldl (\<lambda>grps tc. push_test tc grps) (gs @ [?g]) tcs"
      using p by simp
    also have "\<dots> = map (\<lambda>g. g\<lparr>grp_tests := grp_tests g @ cases_of (describe g) tcs\<rparr>) (gs @ [?g])
        @ map (\<lambda>c. \<lparr>describe = c, grp_tests = cases_of c tcs\<rparr>)
              (first_seen_from (map describe (gs @ [?g])) ?cs)"
      using Cons.IH [OF d] .
    also have "\<dots> = map (\<lambda>g. g\<lparr>grp_tests := grp_tests g @ cases_of (describe g) (tc # tcs)\<rparr>) gs
        @ map (\<lambda>c. \<lparr>describe = c, grp_tests = cases_of c (tc # tcs)\<rparr>)
              (?c # first_seen_from (map describe gs @ [?c]) ?cs)"
      using m n by (simp add: cases_of_def)
    finally show ?thesis using False by simp
  qed
qed

lemma getGroups_eq:
  "getGroups suite =
     (case test_case suite of
        None \<Rightarrow> []
      | Some tcs \<Rightarrow>
          map (\<lambda>c. \<lparr>group_name = Some c, group_tests = map test_result (cases_of c tcs)\<rparr>)
              (first_seen (map (\<lambda>tc. classname (tc_attrs tc)) tcs)))"
  by (simp add: getGroups_def foldl_push_test first_seen_def comp_def split: option.splits)

lemma getGroups_Nil_iff:
  "getGroups (TestSuite attrs tcs nested) = [] \<longleftrightarrow> tcs = None \<or> tcs = Some []"
proof -
  have "foldl (\<lambda>grps tc. push_test tc grps) gs xs = [] \<longleftrightarrow> gs = [] \<and> xs = []" for gs xs
  proof (induction xs arbitrary: gs)
    case Nil
    show ?case by simp
  next
    case (Cons x xs)
    have "push_test x gs \<noteq> []" by (cases gs) auto
    with Cons show ?case by simp
  qed
  then show ?thesis
    by (auto simp: getGroups_def split: option.splits)
qed

text \<open>
  Claim C6. The groups of a suite are made by class name. An absent test-case
  list gives no group. Otherwise there is one group for each distinct class
  name, in the order in which the class names are first seen (not sorted); the
  key of a group is its class name; the cases of a group are the cases with
  that class name in their original order; and the name of each case is
  trimmed. First-seen order is pinned down by the last two conjuncts: nothing
  is seen in the empty list, and a further element is appended exactly when it
  has not occurred before.
\<close>

theorem getGroups_by_classname:
  "getGroups (TestSuite attrs None nested) = []
   \<and> getGroups (TestSuite attrs (Some tcs) nested) =
       map (\<lambda>c. \<lparr>group_name = Some c, group_tests = map test_result (cases_of c tcs)\<rparr>)
           (first_seen (map (\<lambda>tc. classname (tc_attrs tc)) tcs))
   \<and> distinct (map group_name (getGroups (TestSuite attrs (Some tcs) nested)))
   \<and> case_name (test_result tc) = trim (tc_name (tc_attrs tc))
   \<and> first_seen ([] :: jsstring list) = []
   \<and> first_seen (cs @ [c]) = first_seen cs @ (if c \<in> set cs then [] else [c])"
proof -
  have "distinct (map group_name (getGroups (TestSuite attrs (Some tcs) nested)))"
    by (simp add: getGroups_eq comp_def first_seen_def first_seen_from_distinct distinct_map)
  moreover have "first_seen (cs @ [c]) = first_seen cs @ (if c \<in> set cs then [] else [c])"
    by (simp add: first_seen_def first_seen_from_snoc)
  ultimately show ?thesis
    by (simp add: getGroups_eq test_result_def first_seen_def)
qed

section \<open>Suite traversal\<close>

lemma traversal_eq:
  "getTestSuiteResultRecursive tss acc d =
     acc @ map (\<lambda>(ts, k). suite_result k ts) (visited d tss)"
proof (induction tss acc d rule: getTestSuiteResultRecursive.induct)
  case (1 suiteResults d)
  show ?case by (simp add: visited_def)
next
  case (2 suiteResults d)
  show ?case by (simp add: visited_def)
next
  case (3 attrs tcs nested rest acc d)
  let ?ts = "TestSuite attrs tcs nested"
  let ?f = "\<lambda>(ts, k). suite_result k ts"
  let ?pushed = "acc @ [suite_result d ?ts]"
  let ?visited = "if length (getGroups ?ts) = 0
                  then (if nested \<noteq> None
                        then getTestSuiteResultRecursive nested ?pushed (d + 1)
                        else ?pushed)
                  else ?pushed"
  have sr: "\<lparr>suite_name = trim (ts_name attrs), groups = getGroups ?ts,
              suite_totalTime = js_times (parseFloat (ts_duration attrs)) (Finite 1000),
              depth = d\<rparr> = suite_result d ?ts"
    by (simp add: suite_result_def)
  have step: "getTestSuiteResultRecursive (Some (?ts # rest)) acc d
              = getTestSuiteResultRecursive (Some rest) ?visited d"
    by (simp only: getTestSuiteResultRecursive.simps Let_def sr)
  have ih2: "getTestSuiteResultRecursive (Some rest) ?visited d
             = ?visited @ map ?f (visited d (Some rest))"
    using "3.IH"(2) [OF refl refl refl refl refl refl refl, unfolded sr] .
  have ih1: "getTestSuiteResultRecursive nested ?pushed (d + 1)
             = ?pushed @ map ?f (visited (d + 1) nested)"
    if "length (getGroups ?ts) = 0" "nested \<noteq> None"
    using "3.IH"(1) [OF refl refl refl refl refl refl that, unfolded sr] .
  have v: "?visited = ?pushed @ map ?f (if getGroups ?ts = [] then visited (d + 1) nested else [])"
    using ih1 by (cases nested) (auto simp: visited_def)
  have po: "visited d (Some (?ts # rest))
            = (?ts, d) # (if getGroups ?ts = [] then visited (d + 1) nested else [])
              @ visited d (Some rest)"
    by (cases nested) (simp_all add: visited_def)
  have "getTestSuiteResultRecursive (Some (?ts # rest)) acc d
        = ?visited @ map ?f (visited d (Some rest))"
    using step ih2 by (rule trans)
  also have "\<dots> = (?pushed @ map ?f (if getGroups ?ts = [] then visited (d + 1) nested else []))
                     @ map ?f (visited d (Some rest))"
    using v by (rule arg_cong)
  also have "\<dots> = acc @ map ?f (visited d (Some (?ts # rest)))"
    unfolding po by simp
  finally show ?case .
qed

lemma visited_Cons:
  "visited d (Some (TestSuite attrs tcs nested # rest)) =
     (TestSuite attrs tcs nested, d)
     # (if tcs = None \<or> tcs = Some [] then visited (d + 1) nested else [])
     @ visited d (Some rest)"
  by (cases nested) (simp_all add: visited_def getGroups_Nil_iff)

lemma suite_result_nested:
  "suite_result d (TestSuite attrs tcs nested) = suite_result d (TestSuite attrs tcs None)"
  by (simp add: suite_result_def getGroups_def)

text \<open>
  Claim C4. The traversal appends to the accumulator the results of the
  visited suites in pre-order. The suites of a list are visited in document
  order; the result of a suite is appended before anything below it; the
  nested suites are visited, at the depth plus one, only when the suite
  produced no group, which is when its test-case list is absent or empty; and
  a suite with a non-empty test-case list is a leaf: the traversal goes on
  with the rest of the list, and the result is the one of the same suite
  without nested suites.
\<close>

theorem getTestSuiteResultRecursive_pre_order:
  "getTestSuiteResultRecursive testSuites acc d =
     acc @ map (\<lambda>(ts, k). suite_result k ts) (visited d testSuites)
   \<and> visited d None = []
   \<and> visited d (Some []) = []
   \<and> visited d (Some (TestSuite attrs tcs nested # rest)) =
       (TestSuite attrs tcs nested, d)
       # (if tcs = None \<or> tcs = Some [] then visited (d + 1) nested else [])
       @ visited d (Some rest)
   \<and> (getGroups (TestSuite attrs tcs nested) = [] \<longleftrightarrow> tcs = None \<or> tcs = Some [])
   \<and> getTestSuiteResultRecursive (Some (TestSuite attrs (Some (tc # tcs')) nested # rest)) acc d =
       getTestSuiteResultRecursive (Some rest)
         (acc @ [suite_result d (TestSuite attrs (Some (tc # tcs')) None)]) d"
proof -
  have "getTestSuiteResultRecursive (Some (TestSuite attrs (Some (tc # tcs')) nested # rest)) acc d =
       getTestSuiteResultRecursive (Some rest)
         (acc @ [suite_result d (TestSuite attrs (Some (tc # tcs')) None)]) d"
    by (simp add: traversal_eq visited_Cons suite_result_nested [of d attrs "Some (tc # tcs')" nested])
  then show ?thesis
    using traversal_eq visited_Cons getGroups_Nil_iff by (simp add: visited_def)
qed

section \<open>Durations\<close>

text \<open>
  Claim C7. When the time attribute of the test run is present and
  \<^verbatim>\<open>parseFloat\<close> reads a number from it, the duration of the run is that
  number times 1000. When the attribute, or the attribute object, is missing,
  or \<^verbatim>\<open>parseFloat\<close> gives \<open>NaN\<close>, the duration is absent; it is never present
  as \<open>NaN\<close>. For instance \<^verbatim>\<open>"1.5"\<close> gives 1500 and \<^verbatim>\<open>"abc"\<close> gives no duration.
\<close>

theorem getTestRunResult_time:
  "run_totalTime (getTestRunResult filePath
       \<lparr>test_run = \<lparr>run_attrs = Some \<lparr>time = Some s\<rparr>, run_test_suite = tss\<rparr>\<rparr>) =
     (if parseFloat s = NaN then None else Some (js_times (parseFloat s) (Finite 1000)))
   \<and> run_totalTime (getTestRunResult filePath
       \<lparr>test_run = \<lparr>run_attrs = Some \<lparr>time = None\<rparr>, run_test_suite = tss\<rparr>\<rparr>) = None
   \<and> run_totalTime (getTestRunResult filePath
       \<lparr>test_run = \<lparr>run_attrs = None, run_test_suite = tss\<rparr>\<rparr>) = None
   \<and> run_totalTime (getTestRunResult filePath nunit) \<noteq> Some NaN
   \<and> run_totalTime (getTestRunResult filePath
       \<lparr>test_run = \<lparr>run_attrs = Some \<lparr>time = Some (js ''1.5'')\<rparr>, run_test_suite = tss\<rparr>\<rparr>) =
       Some (Finite 1500)
   \<and> run_totalTime (getTestRunResult filePath
       \<lparr>test_run = \<lparr>run_attrs = Some \<lparr>time = Some (js ''abc'')\<rparr>, run_test_suite = tss\<rparr>\<rparr>) = None"
proof -
  have "run_totalTime (getTestRunResult filePath nunit) \<noteq> Some NaN"
    by (simp add: getTestRunResult_def Let_def isNaN_def times_1000_NaN_iff)
  then show ?thesis
    by (simp add: getTestRunResult_def Let_def isNaN_def to_string_def parseFloat_undefined
          parseFloat_letters parseFloat_one_and_a_half to_double_1500)
qed

text \<open>
  Claim C8. The duration of every suite result is the parsed duration
  attribute of its suite times 1000: in the whole output, and in particular
  for the first suite of a list. A duration attribute \<^verbatim>\<open>"1.5"\<close> gives 1500. An
  attribute from which \<^verbatim>\<open>parseFloat\<close> reads no number, such as \<^verbatim>\<open>"abc"\<close>, gives
  \<open>NaN\<close> as the duration of the suite result, which is still produced.
\<close>

theorem suite_duration_milliseconds:
  "map suite_totalTime (getTestSuiteResultRecursive testSuites [] d) =
     map (\<lambda>(ts, k). js_times (parseFloat (ts_duration (ts_attrs ts))) (Finite 1000))
         (visited d testSuites)
   \<and> suite_totalTime (hd (getTestSuiteResultRecursive (Some (TestSuite attrs tcs nested # rest)) [] d)) =
       js_times (parseFloat (ts_duration attrs)) (Finite 1000)
   \<and> (ts_duration attrs = js ''1.5'' \<longrightarrow>
        suite_totalTime (hd (getTestSuiteResultRecursive (Some (TestSuite attrs tcs nested # rest)) [] d)) =
        Finite 1500)
   \<and> (parseFloat (ts_duration attrs) = NaN \<longrightarrow>
        suite_totalTime (hd (getTestSuiteResultRecursive (Some (TestSuite attrs tcs nested # rest)) [] d)) =
        NaN)
   \<and> parseFloat (js ''abc'') = NaN"
proof -
  have m: "map suite_totalTime (getTestSuiteResultRecursive testSuites [] d) =
     map (\<lambda>(ts, k). js_times (parseFloat (ts_duration (ts_attrs ts))) (Finite 1000))
         (visited d testSuites)"
    by (simp add: traversal_eq suite_result_def split_def comp_def)
  have h: "suite_totalTime (hd (getTestSuiteResultRecursive (Some (TestSuite attrs tcs nested # rest)) [] d)) =
       js_times (parseFloat (ts_duration attrs)) (Finite 1000)"
    by (simp add: traversal_eq visited_Cons suite_result_def)
  show ?thesis
    unfolding h using m by (simp add: parseFloat_letters parseFloat_one_and_a_half to_double_1500)
qed

theorem suite_duration_milliseconds_witness:
  "ts_duration \<lparr>ts_name = js ''s'', tests = js ''1'', errors = js ''0'', failed = js ''0'',
                 skipped = js ''0'', passed = js ''1'', ts_duration = js ''1.5''\<rparr> = js ''1.5''
   \<and> suite_totalTime (hd (getTestSuiteResultRecursive
         (Some [TestSuite \<lparr>ts_name = js ''s'', tests = js ''1'', errors = js ''0'',
                            failed = js ''0'', skipped = js ''0'', passed = js ''1'',
                            ts_duration = js ''1.5''\<rparr> None None]) [] 0)) = Finite 1500
   \<and> parseFloat (ts_duration \<lparr>ts_name = js ''s'', tests = js ''1'', errors = js ''0'',
                  failed = js ''0'', skipped = js ''0'', passed = js ''1'',
                  ts_duration = js ''abc''\<rparr>) = NaN
   \<and> suite_totalTime (hd (getTestSuiteResultRecursive
         (Some [TestSuite \<lparr>ts_name = js ''s'', tests = js ''1'', errors = js ''0'',
                            failed = js ''0'', skipped = js ''0'', passed = js ''1'',
                            ts_duration = js ''abc''\<rparr> None None]) [] 0)) = NaN"
  using suite_duration_milliseconds
      [of None 0 "\<lparr>ts_name = js ''s'', tests = js ''1'', errors = js ''0'', failed = js ''0'',
                     skipped = js ''0'', passed = js ''1'', ts_duration = js ''1.5''\<rparr>"
          None None "[]"]
    suite_duration_milliseconds
      [of None 0 "\<lparr>ts_name = js ''s'', tests = js ''1'', errors = js ''0'', failed = js ''0'',
                     skipped = js ''0'', passed = js ''1'', ts_duration = js ''abc''\<rparr>"
          None None "[]"]
  by (simp del: getTestSuiteResultRecursive.simps add: parseFloat_letters parseFloat_one_and_a_half to_double_1500)

section \<open>The frame pattern\<close>

lemma greedy_Some:
  "greedy p k acc s = Some r \<Longrightarrow>
   \<exists>taken rest. s = taken @ rest \<and> list_all p taken \<and> k (acc @ taken) rest = Some r"
proof (induction s arbitrary: acc)
  case Nil
  then show ?case by simp
next
  case (Cons c cs)
  show ?case
  proof (cases "p c \<and> greedy p k (acc @ [c]) cs \<noteq> None")
    case True
    with Cons.prems have "greedy p k (acc @ [c]) cs = Some r"
      by (auto split: option.splits)
    from Cons.IH [OF this] obtain taken rest
      where "cs = taken @ rest" "list_all p taken" "k ((acc @ [c]) @ taken) rest = Some r"
      by blast
    with True have "c # cs = (c # taken) @ rest \<and> list_all p (c # taken)
                    \<and> k (acc @ (c # taken)) rest = Some r"
      by simp
    then show ?thesis by blast
  next
    case False
    with Cons.prems have "k acc (c # cs) = Some r"
      by (auto split: option.splits if_splits)
    then have "c # cs = [] @ (c # cs) \<and> list_all p [] \<and> k (acc @ []) (c # cs) = Some r"
      by simp
    then show ?thesis by blast
  qed
qed

lemma greedy_Nil_Some:
  assumes "greedy p k [] s = Some r"
  shows "\<exists>taken rest. s = taken @ rest \<and> list_all p taken \<and> k taken rest = Some r"
  using greedy_Some [OF assms] by simp

lemma greedy_plus_Some:
  assumes "greedy_plus p k s = Some r"
  shows "\<exists>taken rest. s = taken @ rest \<and> taken \<noteq> [] \<and> list_all p taken \<and> k taken rest = Some r"
proof (cases s)
  case Nil
  with assms show ?thesis by (simp add: greedy_plus_def)
next
  case (Cons c cs)
  with assms have pc: "p c" and g: "greedy p k [c] cs = Some r"
    by (auto simp: greedy_plus_def split: if_splits)
  from greedy_Some [OF g] obtain taken rest
    where "cs = taken @ rest" "list_all p taken" "k ([c] @ taken) rest = Some r"
    by blast
  with Cons pc have "s = (c # taken) @ rest \<and> c # taken \<noteq> [] \<and> list_all p (c # taken)
                     \<and> k (c # taken) rest = Some r"
    by simp
  then show ?thesis by blast
qed

lemma lit_Some:
  "lit c k s = Some r \<Longrightarrow> \<exists>rest. s = c # rest \<and> k rest = Some r"
  by (cases s) (auto simp: lit_def split: if_splits)

lemma match_re_Some:
  assumes "match_re str = Some (tracePath, fileName, lineStr)"
  shows "str = js ''at '' @ tracePath @ [40] @ fileName @ [58] @ lineStr @ [41]
         \<and> lineStr \<noteq> [] \<and> list_all is_digit lineStr
         \<and> list_all dot tracePath \<and> list_all dot fileName"
proof -
  let ?k3 = "\<lambda>tp fn ls. lit 41 (\<lambda>r. if r = [] then Some (tp, fn, ls) else None)"
  let ?k2 = "\<lambda>tp fn. lit 58 (greedy_plus is_digit (?k3 tp fn))"
  let ?k1 = "\<lambda>tp. lit 40 (greedy dot (?k2 tp) [])"
  from assms have at: "take 3 str = js ''at ''"
    and g1: "greedy dot ?k1 [] (drop 3 str) = Some (tracePath, fileName, lineStr)"
    by (auto simp: match_re_def split: if_splits)
  from greedy_Nil_Some [OF g1] obtain tp r1
    where s1: "drop 3 str = tp @ r1" and d1: "list_all dot tp"
      and k1: "?k1 tp r1 = Some (tracePath, fileName, lineStr)"
    by blast
  from lit_Some [OF k1] obtain r2
    where s2: "r1 = 40 # r2"
      and g2: "greedy dot (?k2 tp) [] r2 = Some (tracePath, fileName, lineStr)"
    by blast
  from greedy_Nil_Some [OF g2] obtain fn r3
    where s3: "r2 = fn @ r3" and d2: "list_all dot fn"
      and k2: "?k2 tp fn r3 = Some (tracePath, fileName, lineStr)"
    by blast
  from lit_Some [OF k2] obtain r4
    where s4: "r3 = 58 # r4"
      and g3: "greedy_plus is_digit (?k3 tp fn) r4 = Some (tracePath, fileName, lineStr)"
    by blast
  from greedy_plus_Some [OF g3] obtain ls r5
    where s5: "r4 = ls @ r5" and n: "ls \<noteq> []" and d3: "list_all is_digit ls"
      and k3: "?k3 tp fn ls r5 = Some (tracePath, fileName, lineStr)"
    by blast
  from lit_Some [OF k3] obtain r6
    where s6: "r5 = 41 # r6"
      and e: "(if r6 = [] then Some (tp, fn, ls) else None) = Some (tracePath, fileName, lineStr)"
    by blast
  from e have r6: "r6 = []" and eq: "tp = tracePath" "fn = fileName" "ls = lineStr"
    by (auto split: if_splits)
  have "str = take 3 str @ drop 3 str" by simp
  also have "\<dots> = js ''at '' @ tracePath @ [40] @ fileName @ [58] @ lineStr @ [41]"
    unfolding at s1 s2 s3 s4 s5 s6 r6 eq by simp
  finally show ?thesis using n d1 d2 d3 eq by simp
qed

lemma scan_lines_Some:
  "scan_lines this lines = Inr (Some (p, l)) \<Longrightarrow>
   \<exists>str \<in> set lines. \<exists>tp fn ls.
      match_re str = Some (tp, fn, ls) \<and> getFilePath this tp fn = Inr (Some p)
      \<and> l = parseInt ls"
  by (induction lines) (auto split: option.splits prod.splits sum.splits)

lemmas match_re_eval =
  match_re_def js_def dot_def is_line_terminator_def lit_def greedy_plus_def is_digit_def

text \<open>
  Claim C10. A line of the stack trace counts as a frame only when the pattern
  matches the whole of it. A match means that the line is \<^verbatim>\<open>at \<close>, the trace
  path, an opening parenthesis, the file name, a colon, the line part and a
  closing parenthesis, with nothing before and nothing after: the line begins
  with the three characters \<^verbatim>\<open>at \<close> and its last character is the closing
  parenthesis; the line part is not empty and consists of decimal digits. A
  resolved source always comes from such a line. Lines with a leading space or
  tab, with anything after the closing parenthesis, or with a line part that
  is empty or not numeric do not match.
\<close>

theorem frame_pattern_whole_line:
  "(match_re str = Some (tracePath, fileName, lineStr) \<longrightarrow>
      str = js ''at '' @ tracePath @ [40] @ fileName @ [58] @ lineStr @ [41]
      \<and> take 3 str = js ''at '' \<and> last str = 41
      \<and> lineStr \<noteq> [] \<and> list_all is_digit lineStr)
   \<and> (exceptionThrowSource this stackTrace = Inr (Some (p, l)) \<longrightarrow>
        (\<exists>str \<in> set (split_lines stackTrace). \<exists>tp fn ls.
            match_re str = Some (tp, fn, ls) \<and> getFilePath this tp fn = Inr (Some p)
            \<and> l = parseInt ls))
   \<and> match_re (js ''at com.foo.Bar.baz(Bar.java:42)'') =
       Some (js ''com.foo.Bar.baz'', js ''Bar.java'', js ''42'')
   \<and> match_re (js '' at com.foo.Bar.baz(Bar.java:42)'') = None
   \<and> match_re (9 # js ''at com.foo.Bar.baz(Bar.java:42)'') = None
   \<and> match_re (js ''at com.foo.Bar.baz(Bar.java:42) '') = None
   \<and> match_re (js ''at com.foo.Bar.baz(Bar.java:42) [jar]'') = None
   \<and> match_re (js ''at com.foo.Bar.baz(Bar.java:4x)'') = None
   \<and> match_re (js ''at com.foo.Bar.baz(Bar.java:)'') = None"
proof -
  have a: "str = js ''at '' @ tracePath @ [40] @ fileName @ [58] @ lineStr @ [41]
      \<and> take 3 str = js ''at '' \<and> last str = 41
      \<and> lineStr \<noteq> [] \<and> list_all is_digit lineStr"
    if m: "match_re str = Some (tracePath, fileName, lineStr)"
  proof -
    from match_re_Some [OF m]
    have s: "str = js ''at '' @ tracePath @ [40] @ fileName @ [58] @ lineStr @ [41]"
      and r: "lineStr \<noteq> []" "list_all is_digit lineStr"
      by simp_all
    have "take 3 str = js ''at ''"
      by (subst s) (simp add: js_def)
    moreover have "last str = 41"
      by (subst s) simp
    ultimately show ?thesis using s r by blast
  qed
  have b: "\<exists>str \<in> set (split_lines stackTrace). \<exists>tp fn ls.
            match_re str = Some (tp, fn, ls) \<and> getFilePath this tp fn = Inr (Some p)
            \<and> l = parseInt ls"
    if "exceptionThrowSource this stackTrace = Inr (Some (p, l))"
    using that scan_lines_Some by (simp add: exceptionThrowSource_def)
  have e1: "match_re (js ''at com.foo.Bar.baz(Bar.java:42)'') =
       Some (js ''com.foo.Bar.baz'', js ''Bar.java'', js ''42'')"
    by (simp add: match_re_eval)
  have e2: "match_re (js '' at com.foo.Bar.baz(Bar.java:42)'') = None"
    by (simp add: match_re_eval)
  have e3: "match_re (9 # js ''at com.foo.Bar.baz(Bar.java:42)'') = None"
    by (simp add: match_re_eval)
  have e4: "match_re (js ''at com.foo.Bar.baz(Bar.java:42) '') = None"
    by (simp add: match_re_eval)
  have e5: "match_re (js ''at com.foo.Bar.baz(Bar.java:42) [jar]'') = None"
    by (simp add: match_re_eval)
  have e6: "match_re (js ''at com.foo.Bar.baz(Bar.java:4x)'') = None"
    by (simp add: match_re_eval)
  have e7: "match_re (js ''at com.foo.Bar.baz(Bar.java:)'') = None"
    by (simp add: match_re_eval)
  from a b e1 e2 e3 e4 e5 e6 e7 show ?thesis by blast
qed

subsection \<open>The example frame\<close>

lemma to_double_42: "to_double 42 = Finite 42"
  by code_simp

lemma parseInt_42: "parseInt (js ''42'') = Finite 42"
  by (simp add: parseInt_def js_def is_js_whitespace_def is_digit_def digits_value_def Let_def
        to_double_42)

lemma example_tracked:
  "trackedFiles example_parser (js ''Bar.java'') = Some [js ''src/com/foo/Bar.java'']"
  by (simp add: example_parser_def)

lemma example_split_lines:
  "split_lines (js ''at com.foo.Bar.baz(Bar.java:42)'') = [js ''at com.foo.Bar.baz(Bar.java:42)'']"
  by (simp add: split_lines_def js_def)

lemma example_package_parts:
  "package_parts (js ''com.foo.Bar.baz'') = [js ''com'', js ''foo'']"
  by (simp add: package_parts_def split_char_def first_le_Z_def splice_def js_def)

lemma example_dirs:
  "split_char 47 (dirname (js ''src/com/foo/Bar.java'')) = [js ''src'', js ''com'', js ''foo'']"
  by (simp add: split_char_def dirname_def js_def Let_def)

lemma example_getFilePath:
  "getFilePath example_parser (js ''com.foo.Bar.baz'') (js ''Bar.java'') =
     Inr (Some (js ''src/com/foo/Bar.java''))"
  by (simp add: getFilePath_def read_property_def example_tracked example_package_parts
        example_dirs splice_def every_def at_index_def Let_def upt_rec)

lemma example_match:
  "match_re (js ''at com.foo.Bar.baz(Bar.java:42)'') =
     Some (js ''com.foo.Bar.baz'', js ''Bar.java'', js ''42'')"
  by (simp add: match_re_eval)

lemma example_source:
  "exceptionThrowSource example_parser (js ''at com.foo.Bar.baz(Bar.java:42)'') =
     Inr (Some (js ''src/com/foo/Bar.java'', Finite 42))"
  by (simp add: exceptionThrowSource_def example_split_lines example_match example_getFilePath
        parseInt_42)

theorem frame_pattern_whole_line_witness:
  "match_re (js ''at com.foo.Bar.baz(Bar.java:42)'') =
     Some (js ''com.foo.Bar.baz'', js ''Bar.java'', js ''42'')
   \<and> last (js ''at com.foo.Bar.baz(Bar.java:42)'') = 41
   \<and> list_all is_digit (js ''42'')
   \<and> exceptionThrowSource example_parser (js ''at com.foo.Bar.baz(Bar.java:42)'') =
       Inr (Some (js ''src/com/foo/Bar.java'', Finite 42))
   \<and> (\<exists>str \<in> set (split_lines (js ''at com.foo.Bar.baz(Bar.java:42)'')). \<exists>tp fn ls.
          match_re str = Some (tp, fn, ls)
          \<and> getFilePath example_parser tp fn = Inr (Some (js ''src/com/foo/Bar.java''))
          \<and> Finite 42 = parseInt ls)"
proof -
  note t = frame_pattern_whole_line
    [of "js ''at com.foo.Bar.baz(Bar.java:42)''" "js ''com.foo.Bar.baz''" "js ''Bar.java''"
        "js ''42''" example_parser "js ''at com.foo.Bar.baz(Bar.java:42)''"
        "js ''src/com/foo/Bar.java''" "Finite 42"]
  from t example_match
  have "last (js ''at com.foo.Bar.baz(Bar.java:42)'') = 41 \<and> list_all is_digit (js ''42'')"
    by blast
  moreover from t example_source
  have "\<exists>str \<in> set (split_lines (js ''at com.foo.Bar.baz(Bar.java:42)'')). \<exists>tp fn ls.
          match_re str = Some (tp, fn, ls)
          \<and> getFilePath example_parser tp fn = Inr (Some (js ''src/com/foo/Bar.java''))
          \<and> Finite 42 = parseInt ls"
    by blast
  ultimately show ?thesis
    using example_match example_source by blast
qed

section \<open>Path resolution\<close>

lemma js_inj: "js a = js b \<longleftrightarrow> a = b"
  by (simp add: js_def inj_map_eq_map inj_of_char)

lemma every_nth:
  "every f xs \<longleftrightarrow> (\<forall>i < length xs. f (xs ! i) i)"
  by (simp add: every_def list_all_length)

lemma every_at_index:
  "every (\<lambda>part i. at_index dirs i = Some part) parts \<longleftrightarrow>
     length parts \<le> length dirs \<and> take (length parts) dirs = parts"
proof
  assume "every (\<lambda>part i. at_index dirs i = Some part) parts"
  then have L: "\<forall>i < length parts. i < length dirs \<and> dirs ! i = parts ! i"
    by (auto simp: every_nth at_index_def split: if_splits)
  have len: "length parts \<le> length dirs"
  proof (cases parts)
    case Nil
    then show ?thesis by simp
  next
    case (Cons a as)
    with L have "length as < length dirs" by auto
    with Cons show ?thesis by simp
  qed
  with L have "take (length parts) dirs = parts"
    by (auto simp: list_eq_iff_nth_eq)
  with len show "length parts \<le> length dirs \<and> take (length parts) dirs = parts"
    by simp
next
  assume R: "length parts \<le> length dirs \<and> take (length parts) dirs = parts"
  have "dirs ! i = parts ! i" if "i < length parts" for i
  proof -
    from R have "parts ! i = take (length parts) dirs ! i" by simp
    with that show ?thesis by simp
  qed
  with R show "every (\<lambda>part i. at_index dirs i = Some part) parts"
    by (auto simp: every_nth at_index_def)
qed

lemma match_files_Cons:
  "match_files parts (filePath # files) =
     (if dir_suffix_matches parts filePath then Some filePath else match_files parts files)"
proof -
  let ?dirs = "split_char 47 (dirname filePath)"
  show ?thesis
  proof (cases "length parts \<le> length ?dirs")
    case False
    then have "length parts > length ?dirs" by simp
    then have "match_files parts (filePath # files) = match_files parts files"
      by (simp only: match_files.simps Let_def if_True)
    moreover from False have "\<not> dir_suffix_matches parts filePath"
      by (simp only: dir_suffix_matches_def Let_def simp_thms)
    ultimately show ?thesis by simp
  next
    case True
    let ?d = "if length ?dirs > length parts
              then splice 0 (length ?dirs - length parts) ?dirs else ?dirs"
    have d: "?d = drop (length ?dirs - length parts) ?dirs"
      using True by (simp add: splice_def)
    have l: "length (drop (length ?dirs - length parts) ?dirs) = length parts"
      using True by simp
    have e: "every (\<lambda>part i. at_index ?d i = Some part) parts
          \<longleftrightarrow> drop (length ?dirs - length parts) ?dirs = parts"
      unfolding d every_at_index using l by (metis order_refl take_all)
    from True have n: "\<not> length parts > length ?dirs" by simp
    have "match_files parts (filePath # files) =
            (if every (\<lambda>part i. at_index ?d i = Some part) parts then Some filePath
             else match_files parts files)"
      using n by (simp only: match_files.simps Let_def if_False)
    moreover have "dir_suffix_matches parts filePath
                   \<longleftrightarrow> drop (length ?dirs - length parts) ?dirs = parts"
      using True by (simp only: dir_suffix_matches_def Let_def simp_thms)
    ultimately show ?thesis
      using e by simp
  qed
qed

lemma match_files_find:
  "match_files parts files = List.find (dir_suffix_matches parts) files"
  by (induction files) (simp_all only: match_files.simps(1) match_files_Cons find.simps)

lemma find_Some_ex:
  "(\<exists>y. List.find P xs = Some y) \<longleftrightarrow> (\<exists>x. x \<in> set xs \<and> P x)"
  by (induction xs) auto

lemma read_property_own:
  "fileName \<notin> set object_prototype_properties \<Longrightarrow>
   read_property obj fileName = (case obj fileName of None \<Rightarrow> Undefined | Some fs \<Rightarrow> Files fs)"
  by (simp add: read_property_def split: option.splits)

lemma getFilePath_eq:
  "fileName \<notin> set object_prototype_properties \<Longrightarrow>
   getFilePath this tracePath fileName =
     Inr (case trackedFiles this fileName of
            None \<Rightarrow> None
          | Some files \<Rightarrow>
              if package_parts tracePath = [] then None
              else List.find (dir_suffix_matches (package_parts tracePath)) files)"
  by (simp add: getFilePath_def read_property_own match_files_find Let_def split: option.splits)

text \<open>
  For a name that every object inherits and that the index does not hold
  itself, resolution returns \<^verbatim>\<open>undefined\<close> when the package prefix is empty
  and throws otherwise.
\<close>

lemma getFilePath_inherited:
  "fileName \<in> set object_prototype_properties \<Longrightarrow> trackedFiles this fileName = None \<Longrightarrow>
   getFilePath this tracePath fileName =
     (if package_parts tracePath = [] then Inr None else Inl TypeError)"
  by (simp add: getFilePath_def read_property_def Let_def)

lemma add_all_tracked_ok:
  "\<forall>p \<in> set ps. basename p \<notin> set object_prototype_properties \<Longrightarrow>
   \<exists>t. add_all_tracked nf m ps = Inr t
       \<and> (\<forall>k. k \<notin> set object_prototype_properties \<longrightarrow>
              t k = (case m k of
                       None \<Rightarrow> (if filter (\<lambda>p. basename p = k) ps = [] then None
                                else Some (map nf (filter (\<lambda>p. basename p = k) ps)))
                     | Some fs \<Rightarrow> Some (fs @ map nf (filter (\<lambda>p. basename p = k) ps))))
       \<and> (\<forall>k. k \<in> set object_prototype_properties \<longrightarrow> t k = m k)"
proof (induction ps arbitrary: m)
  case Nil
  show ?case by (simp split: option.splits)
next
  case (Cons p ps)
  let ?k = "basename p"
  let ?m = "m(?k \<mapsto> (case m ?k of None \<Rightarrow> [] | Some fs \<Rightarrow> fs) @ [nf p])"
  from Cons.prems have k: "?k \<notin> set object_prototype_properties"
    and rest: "\<forall>p \<in> set ps. basename p \<notin> set object_prototype_properties"
    by simp_all
  have step: "add_tracked nf m p = Inr ?m"
    using k by (simp add: add_tracked_def read_property_own Let_def split: option.splits)
  from Cons.IH [OF rest, of ?m] obtain t where t: "add_all_tracked nf ?m ps = Inr t"
    and own: "\<forall>k. k \<notin> set object_prototype_properties \<longrightarrow>
              t k = (case ?m k of
                       None \<Rightarrow> (if filter (\<lambda>p. basename p = k) ps = [] then None
                                else Some (map nf (filter (\<lambda>p. basename p = k) ps)))
                     | Some fs \<Rightarrow> Some (fs @ map nf (filter (\<lambda>p. basename p = k) ps)))"
    and inh: "\<forall>k. k \<in> set object_prototype_properties \<longrightarrow> t k = ?m k"
    by blast
  have a: "add_all_tracked nf m (p # ps) = Inr t"
    using step t by simp
  have b: "t k = (case m k of
                    None \<Rightarrow> (if filter (\<lambda>p. basename p = k) (p # ps) = [] then None
                             else Some (map nf (filter (\<lambda>p. basename p = k) (p # ps))))
                  | Some fs \<Rightarrow> Some (fs @ map nf (filter (\<lambda>p. basename p = k) (p # ps))))"
    if "k \<notin> set object_prototype_properties" for k
    using own [rule_format, OF that] by (auto split: option.splits)
  have c: "t k = m k" if "k \<in> set object_prototype_properties" for k
    using inh [rule_format, OF that] k that by auto
  from a b c show ?case by blast
qed

lemma add_all_tracked_throws:
  "\<exists>p \<in> set ps. basename p \<in> set object_prototype_properties \<Longrightarrow>
   \<forall>k \<in> set object_prototype_properties. m k = None \<Longrightarrow>
   add_all_tracked nf m ps = Inl TypeError"
proof (induction ps arbitrary: m)
  case Nil
  then show ?case by simp
next
  case (Cons p ps)
  show ?case
  proof (cases "basename p \<in> set object_prototype_properties")
    case True
    with Cons.prems(2) show ?thesis
      by (simp add: add_tracked_def read_property_def Let_def)
  next
    case False
    let ?m = "m(basename p \<mapsto> (case m (basename p) of None \<Rightarrow> [] | Some fs \<Rightarrow> fs) @ [nf p])"
    have step: "add_tracked nf m p = Inr ?m"
      using False by (simp add: add_tracked_def read_property_own Let_def split: option.splits)
    from False Cons.prems(1) have "\<exists>p \<in> set ps. basename p \<in> set object_prototype_properties"
      by auto
    moreover from False Cons.prems(2) have "\<forall>k \<in> set object_prototype_properties. ?m k = None"
      by auto
    ultimately have "add_all_tracked nf ?m ps = Inl TypeError"
      by (rule Cons.IH)
    with step show ?thesis by simp
  qed
qed

lemma new_DotnetNunitParser_ok:
  assumes "\<forall>p \<in> set (opt_trackedFiles opts). basename p \<notin> set object_prototype_properties"
  shows "\<exists>this. new_DotnetNunitParser nf opts = Inr this \<and> options this = opts
           \<and> (\<forall>k. trackedFiles this k =
                  (if filter (\<lambda>p. basename p = k) (opt_trackedFiles opts) = [] then None
                   else Some (map nf (filter (\<lambda>p. basename p = k) (opt_trackedFiles opts)))))"
proof -
  from add_all_tracked_ok [OF assms, of nf Map.empty] obtain t
    where t: "add_all_tracked nf Map.empty (opt_trackedFiles opts) = Inr t"
      and own: "\<forall>k. k \<notin> set object_prototype_properties \<longrightarrow>
              t k = (if filter (\<lambda>p. basename p = k) (opt_trackedFiles opts) = [] then None
                     else Some (map nf (filter (\<lambda>p. basename p = k) (opt_trackedFiles opts))))"
      and inh: "\<forall>k. k \<in> set object_prototype_properties \<longrightarrow> t k = None"
    by auto
  have "t k = (if filter (\<lambda>p. basename p = k) (opt_trackedFiles opts) = [] then None
               else Some (map nf (filter (\<lambda>p. basename p = k) (opt_trackedFiles opts))))" for k
  proof (cases "k \<in> set object_prototype_properties")
    case True
    with assms have "filter (\<lambda>p. basename p = k) (opt_trackedFiles opts) = []"
      by (auto simp: filter_empty_conv)
    with True inh show ?thesis by simp
  next
    case False
    with own show ?thesis by simp
  qed
  with t show ?thesis
    by (simp add: new_DotnetNunitParser_def)
qed

lemma new_DotnetNunitParser_throws:
  "\<exists>p \<in> set (opt_trackedFiles opts). basename p \<in> set object_prototype_properties \<Longrightarrow>
   new_DotnetNunitParser nf opts = Inl TypeError"
  by (simp add: new_DotnetNunitParser_def add_all_tracked_throws)

text \<open>
  Claim C2, amended. For a file name that is not the name of a property that
  every object inherits, path resolution returns a tracked path exactly when
  the package prefix extracted from the trace path is not empty and some
  tracked file with the given base name has at least as many directory
  components as the prefix has segments, its last components being the
  segments of the prefix in order. The path returned is the first candidate,
  in tracked order, that matches; a candidate with fewer directory components
  than the prefix does not match and is passed over. Resolution fails when the
  prefix is empty, when no tracked file has the base name, or when no
  candidate matches. For a file name that every object inherits and that the
  index does not hold, resolution fails when the prefix is empty and throws a
  \<^verbatim>\<open>TypeError\<close> otherwise. When no tracked path has a base name that every
  object inherits, the constructor succeeds, and the candidates of a base name
  are the normalized tracked paths with that base name, in tracked order; when
  some tracked path has such a base name, the constructor throws a
  \<^verbatim>\<open>TypeError\<close>.
\<close>

theorem getFilePath_resolution:
  "(fileName \<notin> set object_prototype_properties \<longrightarrow>
      getFilePath this tracePath fileName =
        Inr (case trackedFiles this fileName of
               None \<Rightarrow> None
             | Some files \<Rightarrow>
                 if package_parts tracePath = [] then None
                 else List.find (dir_suffix_matches (package_parts tracePath)) files))
   \<and> (fileName \<notin> set object_prototype_properties \<longrightarrow>
        ((\<exists>filePath. getFilePath this tracePath fileName = Inr (Some filePath)) \<longleftrightarrow>
           package_parts tracePath \<noteq> []
           \<and> (\<exists>files. trackedFiles this fileName = Some files
                \<and> (\<exists>filePath \<in> set files.
                      dir_suffix_matches (package_parts tracePath) filePath))))
   \<and> (fileName \<in> set object_prototype_properties \<and> trackedFiles this fileName = None \<longrightarrow>
        getFilePath this tracePath fileName =
          (if package_parts tracePath = [] then Inr None else Inl TypeError))
   \<and> ((\<forall>p \<in> set (opt_trackedFiles opts). basename p \<notin> set object_prototype_properties) \<longrightarrow>
        (\<exists>parser. new_DotnetNunitParser normalizeFilePath opts = Inr parser
           \<and> trackedFiles parser fileName =
               (if filter (\<lambda>p. basename p = fileName) (opt_trackedFiles opts) = [] then None
                else Some (map normalizeFilePath
                             (filter (\<lambda>p. basename p = fileName) (opt_trackedFiles opts))))))
   \<and> ((\<exists>p \<in> set (opt_trackedFiles opts). basename p \<in> set object_prototype_properties) \<longrightarrow>
        new_DotnetNunitParser normalizeFilePath opts = Inl TypeError)"
proof -
  have a: "(\<exists>filePath. getFilePath this tracePath fileName = Inr (Some filePath)) \<longleftrightarrow>
           package_parts tracePath \<noteq> []
           \<and> (\<exists>files. trackedFiles this fileName = Some files
                \<and> (\<exists>filePath \<in> set files.
                      dir_suffix_matches (package_parts tracePath) filePath))"
    if n: "fileName \<notin> set object_prototype_properties"
  proof (cases "trackedFiles this fileName")
    case None
    then show ?thesis by (simp add: getFilePath_eq [OF n])
  next
    case (Some files)
    then show ?thesis by (simp add: getFilePath_eq [OF n] find_Some_ex Bex_def)
  qed
  have b: "\<exists>parser. new_DotnetNunitParser normalizeFilePath opts = Inr parser
           \<and> trackedFiles parser fileName =
               (if filter (\<lambda>p. basename p = fileName) (opt_trackedFiles opts) = [] then None
                else Some (map normalizeFilePath
                             (filter (\<lambda>p. basename p = fileName) (opt_trackedFiles opts))))"
    if "\<forall>p \<in> set (opt_trackedFiles opts). basename p \<notin> set object_prototype_properties"
    using new_DotnetNunitParser_ok [OF that, of normalizeFilePath] by blast
  have c: "getFilePath this tracePath fileName =
             (if package_parts tracePath = [] then Inr None else Inl TypeError)"
    if "fileName \<in> set object_prototype_properties \<and> trackedFiles this fileName = None"
    using that getFilePath_inherited by blast
  have d: "new_DotnetNunitParser normalizeFilePath opts = Inl TypeError"
    if "\<exists>p \<in> set (opt_trackedFiles opts). basename p \<in> set object_prototype_properties"
    using that by (rule new_DotnetNunitParser_throws)
  from a b c d getFilePath_eq show ?thesis by blast
qed

lemma not_inherited_Bar: "js ''Bar.java'' \<notin> set object_prototype_properties"
  by (simp add: object_prototype_properties_def js_inj)

lemma example_parser_built:
  "new_DotnetNunitParser id
     \<lparr>parseErrors = True, opt_trackedFiles = [js ''src/com/foo/Bar.java'']\<rparr> = Inr example_parser"
proof -
  have "basename (js ''src/com/foo/Bar.java'') = js ''Bar.java''"
    by (simp add: basename_def js_def)
  then show ?thesis
    using not_inherited_Bar
    by (simp add: new_DotnetNunitParser_def add_tracked_def read_property_def Let_def
          example_parser_def)
qed

lemma inherited_constructor: "js ''constructor'' \<in> set object_prototype_properties"
  by (simp add: object_prototype_properties_def)

lemma example_untracked_constructor: "trackedFiles example_parser (js ''constructor'') = None"
  by (simp add: example_parser_def js_inj)

lemma basename_constructor: "basename (js ''src/constructor'') = js ''constructor''"
  by (simp add: basename_def js_def)

theorem getFilePath_resolution_witness:
  "js ''Bar.java'' \<notin> set object_prototype_properties
   \<and> getFilePath example_parser (js ''com.foo.Bar.baz'') (js ''Bar.java'') =
       Inr (Some (js ''src/com/foo/Bar.java''))
   \<and> package_parts (js ''com.foo.Bar.baz'') \<noteq> []
   \<and> (\<exists>files. trackedFiles example_parser (js ''Bar.java'') = Some files
        \<and> (\<exists>filePath \<in> set files.
              dir_suffix_matches (package_parts (js ''com.foo.Bar.baz'')) filePath))
   \<and> basename (js ''src/com/foo/Bar.java'') \<notin> set object_prototype_properties
   \<and> new_DotnetNunitParser id
        \<lparr>parseErrors = True, opt_trackedFiles = [js ''src/com/foo/Bar.java'']\<rparr> =
       Inr example_parser
   \<and> js ''constructor'' \<in> set object_prototype_properties
   \<and> trackedFiles example_parser (js ''constructor'') = None
   \<and> getFilePath example_parser (js ''com.foo.Bar.baz'') (js ''constructor'') = Inl TypeError
   \<and> basename (js ''src/constructor'') \<in> set object_prototype_properties
   \<and> new_DotnetNunitParser id
        \<lparr>parseErrors = True, opt_trackedFiles = [js ''src/constructor'']\<rparr> = Inl TypeError"
proof -
  note t = getFilePath_resolution
    [of "js ''Bar.java''" example_parser "js ''com.foo.Bar.baz''"
        "\<lparr>parseErrors = True, opt_trackedFiles = [js ''src/com/foo/Bar.java'']\<rparr>" id]
  have g: "\<exists>filePath. getFilePath example_parser (js ''com.foo.Bar.baz'') (js ''Bar.java'') =
             Inr (Some filePath)"
    by (simp add: example_getFilePath)
  from t not_inherited_Bar g have "package_parts (js ''com.foo.Bar.baz'') \<noteq> []
   \<and> (\<exists>files. trackedFiles example_parser (js ''Bar.java'') = Some files
        \<and> (\<exists>filePath \<in> set files.
              dir_suffix_matches (package_parts (js ''com.foo.Bar.baz'')) filePath))"
    by blast
  moreover have "basename (js ''src/com/foo/Bar.java'') \<notin> set object_prototype_properties"
    using not_inherited_Bar by (simp add: basename_def js_def)
  moreover note u = getFilePath_resolution
    [of "js ''constructor''" example_parser "js ''com.foo.Bar.baz''"
        "\<lparr>parseErrors = True, opt_trackedFiles = [js ''src/constructor'']\<rparr>" id]
  have i: "\<exists>p \<in> set (opt_trackedFiles
                      \<lparr>parseErrors = True, opt_trackedFiles = [js ''src/constructor'']\<rparr>).
             basename p \<in> set object_prototype_properties"
    using inherited_constructor by (simp add: basename_constructor)
  from u inherited_constructor example_untracked_constructor
  have "getFilePath example_parser (js ''com.foo.Bar.baz'') (js ''constructor'') =
          (if package_parts (js ''com.foo.Bar.baz'') = [] then Inr None else Inl TypeError)"
    by blast
  then have "getFilePath example_parser (js ''com.foo.Bar.baz'') (js ''constructor'') =
               Inl TypeError"
    by (simp add: example_package_parts)
  moreover from u i
  have "new_DotnetNunitParser id
          \<lparr>parseErrors = True, opt_trackedFiles = [js ''src/constructor'']\<rparr> = Inl TypeError"
    by blast
  moreover have "basename (js ''src/constructor'') \<in> set object_prototype_properties"
    using i by simp
  ultimately show ?thesis
    using example_getFilePath not_inherited_Bar example_parser_built inherited_constructor
      example_untracked_constructor
    by blast
qed

lemma flat_tracked:
  "trackedFiles example_flat_parser (js ''Bar.java'') = Some [js ''src/Bar.java'']"
  by (simp add: example_flat_parser_def)

lemma flat_package_parts: "package_parts (js ''Bar.baz'') = []"
  by (simp add: package_parts_def split_char_def first_le_Z_def splice_def js_def)

lemma flat_parser_built:
  "new_DotnetNunitParser id \<lparr>parseErrors = True, opt_trackedFiles = [js ''src/Bar.java'']\<rparr> =
     Inr example_flat_parser"
proof -
  have "basename (js ''src/Bar.java'') = js ''Bar.java''"
    by (simp add: basename_def js_def)
  then show ?thesis
    using not_inherited_Bar
    by (simp add: new_DotnetNunitParser_def add_tracked_def read_property_def Let_def
          example_flat_parser_def)
qed

text \<open>
  Claim C2 as stated fails in two ways. First, for a trace path with an empty
  package prefix: with the tracked file \<^verbatim>\<open>src/Bar.java\<close>, the trace path
  \<^verbatim>\<open>Bar.baz\<close> and the file name \<^verbatim>\<open>Bar.java\<close>, a tracked file has the base name
  and its last zero directory components are the zero segments of the prefix,
  yet resolution fails. Second, for a file name that every object inherits:
  with the tracked file \<^verbatim>\<open>src/com/foo/Bar.java\<close>, the trace path
  \<^verbatim>\<open>com.foo.Bar.baz\<close> and the file name \<^verbatim>\<open>constructor\<close>, no tracked file has the
  base name, yet resolution does not fail with \<^verbatim>\<open>undefined\<close> but throws.
\<close>

theorem getFilePath_empty_prefix_counterexample:
  "new_DotnetNunitParser id \<lparr>parseErrors = True, opt_trackedFiles = [js ''src/Bar.java'']\<rparr> =
     Inr example_flat_parser
   \<and> trackedFiles example_flat_parser (js ''Bar.java'') = Some [js ''src/Bar.java'']
   \<and> basename (js ''src/Bar.java'') = js ''Bar.java''
   \<and> package_parts (js ''Bar.baz'') = []
   \<and> dir_suffix_matches (package_parts (js ''Bar.baz'')) (js ''src/Bar.java'')
   \<and> getFilePath example_flat_parser (js ''Bar.baz'') (js ''Bar.java'') = Inr None
   \<and> new_DotnetNunitParser id
        \<lparr>parseErrors = True, opt_trackedFiles = [js ''src/com/foo/Bar.java'']\<rparr> =
       Inr example_parser
   \<and> trackedFiles example_parser (js ''constructor'') = None
   \<and> package_parts (js ''com.foo.Bar.baz'') = [js ''com'', js ''foo'']
   \<and> getFilePath example_parser (js ''com.foo.Bar.baz'') (js ''constructor'') = Inl TypeError"
proof -
  have "basename (js ''src/Bar.java'') = js ''Bar.java''"
    by (simp add: basename_def js_def)
  moreover have "dir_suffix_matches (package_parts (js ''Bar.baz'')) (js ''src/Bar.java'')"
    by (simp add: flat_package_parts dir_suffix_matches_def Let_def)
  moreover have "getFilePath example_flat_parser (js ''Bar.baz'') (js ''Bar.java'') = Inr None"
    by (simp add: getFilePath_eq [OF not_inherited_Bar] flat_tracked flat_package_parts)
  moreover have "getFilePath example_parser (js ''com.foo.Bar.baz'') (js ''constructor'') =
                   Inl TypeError"
    by (simp add: getFilePath_inherited [OF inherited_constructor example_untracked_constructor]
          example_package_parts)
  ultimately show ?thesis
    using flat_tracked flat_package_parts flat_parser_built example_parser_built
      example_untracked_constructor example_package_parts
    by blast
qed

section \<open>Package prefix\<close>

text \<open>
  The package prefix is the longest run of leading segments that are empty or
  start with a code unit above \<^verbatim>\<open>Z\<close>.
\<close>

lemma findIndex_takeWhile:
  "(case findIndex P xs of None \<Rightarrow> xs | Some i \<Rightarrow> take i xs) = takeWhile (\<lambda>x. \<not> P x) xs"
  by (induction xs) (auto split: option.splits)

lemma findIndex_le:
  "findIndex P xs = Some i \<Longrightarrow> i \<le> length xs"
  by (induction xs arbitrary: i) (auto split: if_splits)

lemma package_parts_takeWhile:
  "package_parts tracePath = takeWhile (\<lambda>part. \<not> first_le_Z part) (split_char 46 tracePath)"
proof -
  let ?xs = "split_char 46 tracePath"
  have "package_parts tracePath =
          (case findIndex first_le_Z ?xs of None \<Rightarrow> ?xs | Some i \<Rightarrow> take i ?xs)"
    by (auto simp: package_parts_def Let_def splice_def dest: findIndex_le split: option.splits)
  then show ?thesis
    by (simp only: findIndex_takeWhile)
qed

lemma gen_tracked:
  "trackedFiles example_gen_parser (js ''Bar.java'') = Some [js ''src/com/$gen/Bar.java'']"
  by (simp add: example_gen_parser_def)

lemma gen_parser_built:
  "new_DotnetNunitParser id
     \<lparr>parseErrors = True, opt_trackedFiles = [js ''src/com/$gen/Bar.java'']\<rparr> =
     Inr example_gen_parser"
proof -
  have "basename (js ''src/com/$gen/Bar.java'') = js ''Bar.java''"
    by (simp add: basename_def js_def)
  then show ?thesis
    using not_inherited_Bar
    by (simp add: new_DotnetNunitParser_def add_tracked_def read_property_def Let_def
          example_gen_parser_def)
qed

lemma gen_package_parts: "package_parts (js ''com.$gen.Bar.baz'') = [js ''com'']"
  by (simp add: package_parts_def split_char_def first_le_Z_def splice_def js_def)

lemma gen_dirs:
  "split_char 47 (dirname (js ''src/com/$gen/Bar.java'')) = [js ''src'', js ''com'', js ''$gen'']"
  by (simp add: split_char_def dirname_def js_def Let_def)

text \<open>
  Claim C3 says that the prefix ends before the first segment that starts with
  an upper-case Latin letter and that a segment starting with any other
  character is kept. The parser tests \<^verbatim>\<open>part[0] <= 'Z'\<close>, which also holds for
  digits and for punctuation such as \<^verbatim>\<open>$\<close>. For the trace path
  \<^verbatim>\<open>com.$gen.Bar.baz\<close> the parser ends the prefix before \<^verbatim>\<open>$gen\<close>: the prefix is
  \<^verbatim>\<open>com\<close> alone, and the tracked file \<^verbatim>\<open>src/com/$gen/Bar.java\<close>, which matches
  the prefix \<^verbatim>\<open>com.$gen\<close>, is not found.
\<close>

theorem package_parts_stops_at_dollar:
  "split_char 46 (js ''com.$gen.Bar.baz'') = [js ''com'', js ''$gen'', js ''Bar'', js ''baz'']
   \<and> first_le_Z (js ''$gen'')
   \<and> package_parts (js ''com.$gen.Bar.baz'') = [js ''com'']
   \<and> new_DotnetNunitParser id
        \<lparr>parseErrors = True, opt_trackedFiles = [js ''src/com/$gen/Bar.java'']\<rparr> =
       Inr example_gen_parser
   \<and> trackedFiles example_gen_parser (js ''Bar.java'') = Some [js ''src/com/$gen/Bar.java'']
   \<and> dir_suffix_matches [js ''com'', js ''$gen''] (js ''src/com/$gen/Bar.java'')
   \<and> getFilePath example_gen_parser (js ''com.$gen.Bar.baz'') (js ''Bar.java'') = Inr None"
proof -
  have "split_char 46 (js ''com.$gen.Bar.baz'') = [js ''com'', js ''$gen'', js ''Bar'', js ''baz'']"
    by (simp add: split_char_def js_def)
  moreover have "first_le_Z (js ''$gen'')"
    by (simp add: first_le_Z_def js_def)
  moreover have "dir_suffix_matches [js ''com'', js ''$gen''] (js ''src/com/$gen/Bar.java'')"
    by (simp add: dir_suffix_matches_def gen_dirs Let_def)
  moreover have "getFilePath example_gen_parser (js ''com.$gen.Bar.baz'') (js ''Bar.java'') =
                   Inr None"
  proof -
    have "\<not> dir_suffix_matches [js ''com''] (js ''src/com/$gen/Bar.java'')"
      by (simp add: dir_suffix_matches_def gen_dirs Let_def js_inj)
    then show ?thesis
      by (simp add: getFilePath_eq [OF not_inherited_Bar] gen_tracked gen_package_parts)
  qed
  ultimately show ?thesis
    using gen_tracked gen_package_parts gen_parser_built by blast
qed

section \<open>Error attachment\<close>

lemma example_parseErrors: "parseErrors (options example_parser)"
  by (simp add: example_parser_def)

text \<open>
  Claim C1 says that, with error parsing enabled, the result of a test case
  with a failure element carries an error with the details, the message and
  the resolved path and line. \<^verbatim>\<open>getTestCaseError\<close> computes exactly this error:
  for the frame \<^verbatim>\<open>at com.foo.Bar.baz(Bar.java:42)\<close> and the tracked file
  \<^verbatim>\<open>src/com/foo/Bar.java\<close> it gives that path and line 42. But \<^verbatim>\<open>getGroups\<close>
  never calls it and passes \<^verbatim>\<open>undefined\<close> as the error of every result.
\<close>

theorem getGroups_leaves_error_undefined:
  "new_DotnetNunitParser id
     \<lparr>parseErrors = True, opt_trackedFiles = [js ''src/com/foo/Bar.java'']\<rparr> = Inr example_parser
   \<and> parseErrors (options example_parser)
   \<and> failure example_case \<noteq> None
   \<and> getTestCaseError example_parser (raw_case example_case) =
       Inr (Some \<lparr>path = Some (js ''src/com/foo/Bar.java''), line = Some (Finite 42),
                  details = js ''at com.foo.Bar.baz(Bar.java:42)'',
                  error_message = Some (js ''boom'')\<rparr>)
   \<and> map (\<lambda>g. map case_error (group_tests g))
         (getGroups (TestSuite example_suite_attrs (Some [example_case]) None)) = [[None]]
   \<and> case_error (test_result tc) = None"
proof -
  have "getTestCaseError example_parser (raw_case example_case) =
       Inr (Some \<lparr>path = Some (js ''src/com/foo/Bar.java''), line = Some (Finite 42),
                  details = js ''at com.foo.Bar.baz(Bar.java:42)'',
                  error_message = Some (js ''boom'')\<rparr>)"
    by (simp add: getTestCaseError_def example_parseErrors raw_case_def example_case_def
          example_source)
  moreover have "map (\<lambda>g. map case_error (group_tests g))
         (getGroups (TestSuite example_suite_attrs (Some [example_case]) None)) = [[None]]"
    by (simp add: getGroups_def test_result_def)
  moreover have "failure example_case \<noteq> None"
    by (simp add: example_case_def)
  ultimately show ?thesis
    using example_parseErrors example_parser_built by (simp add: test_result_def)
qed

section \<open>The parse operation\<close>

subsection \<open>Reports of the declared type\<close>

lemma raw_case_attrs:
  "raw_tc_attrs (raw_case tc) =
     Some \<lparr>raw_classname = Some (classname (tc_attrs tc)),
           raw_tc_name = Some (tc_name (tc_attrs tc)),
           raw_tc_duration = Some (tc_duration (tc_attrs tc)),
           raw_result = Some (result (tc_attrs tc))\<rparr>"
  by (simp add: raw_case_def)

lemma getTestCaseResult_raw_typed:
  "getTestCaseResult_raw (raw_case tc) = Inr (getTestCaseResult tc)"
  by (cases "failure tc")
     (simp_all add: getTestCaseResult_raw_def getTestCaseResult_def raw_case_def truthy_def)

lemma test_result_raw_typed: "test_result_raw (raw_case tc) = Inr (test_result tc)"
  by (simp add: test_result_raw_def test_result_def raw_case_attrs getTestCaseResult_raw_typed
        to_string_def)

lemma push_test_raw_typed:
  "push_test_raw (Some (classname (tc_attrs tc))) (raw_case tc)
     (map (\<lambda>g. \<lparr>raw_describe = Some (describe g),
                  raw_grp_tests = map raw_case (grp_tests g)\<rparr>) gs) =
   map (\<lambda>g. \<lparr>raw_describe = Some (describe g), raw_grp_tests = map raw_case (grp_tests g)\<rparr>)
     (push_test tc gs)"
  by (induction gs) simp_all

lemma group_cases_typed:
  "group_cases
     (map (\<lambda>g. \<lparr>raw_describe = Some (describe g),
                  raw_grp_tests = map raw_case (grp_tests g)\<rparr>) gs)
     (map raw_case tcs) =
   Inr (map (\<lambda>g. \<lparr>raw_describe = Some (describe g),
                    raw_grp_tests = map raw_case (grp_tests g)\<rparr>)
          (foldl (\<lambda>grps tc. push_test tc grps) gs tcs))"
proof (induction tcs arbitrary: gs)
  case Nil
  show ?case by simp
next
  case (Cons tc tcs)
  show ?case
    using Cons.IH [of "push_test tc gs"]
    by (simp add: raw_case_attrs push_test_raw_typed)
qed

lemma collect_map_Inr: "collect (map (\<lambda>x. Inr (f x)) xs) = Inr (map f xs)"
  by (induction xs) simp_all

lemma collect_test_results:
  "collect (map (test_result_raw \<circ> raw_case) tcs) = Inr (map test_result tcs)"
proof -
  have "map (test_result_raw \<circ> raw_case) tcs = map (\<lambda>tc. Inr (test_result tc)) tcs"
    by (simp add: test_result_raw_typed)
  then show ?thesis
    by (simp only: collect_map_Inr)
qed

lemma getGroups_raw_typed: "getGroups_raw (raw_suite ts) = Inr (getGroups ts)"
proof (cases ts)
  case (TestSuite attrs tcs nested)
  show ?thesis
  proof (cases tcs)
    case None
    with TestSuite show ?thesis
      by (simp add: getGroups_raw_def getGroups_def)
  next
    case (Some cases)
    have g: "group_cases [] (map raw_case cases) =
               Inr (map (\<lambda>g. \<lparr>raw_describe = Some (describe g),
                                raw_grp_tests = map raw_case (grp_tests g)\<rparr>)
                      (foldl (\<lambda>grps tc. push_test tc grps) [] cases))"
      using group_cases_typed [of "[]" cases] by simp
    have "collect (map (\<lambda>grp. case collect (map test_result_raw (raw_grp_tests grp)) of
                                 Inl e \<Rightarrow> Inl e
                               | Inr results \<Rightarrow>
                                   Inr \<lparr>group_name = raw_describe grp, group_tests = results\<rparr>)
                     (map (\<lambda>g. \<lparr>raw_describe = Some (describe g),
                                  raw_grp_tests = map raw_case (grp_tests g)\<rparr>) gs)) =
          Inr (map (\<lambda>grp. \<lparr>group_name = Some (describe grp),
                            group_tests = map test_result (grp_tests grp)\<rparr>) gs)" for gs
      by (induction gs) (simp_all add: collect_test_results)
    with g Some TestSuite show ?thesis
      by (simp add: getGroups_raw_def getGroups_def)
  qed
qed

lemma traversal_typed:
  "getTestSuiteResultRecursive_raw (map_option (map raw_suite) tss) acc d =
     Inr (getTestSuiteResultRecursive tss acc d)"
proof (induction tss acc d rule: getTestSuiteResultRecursive.induct)
  case (1 suiteResults d)
  show ?case by simp
next
  case (2 suiteResults d)
  show ?case by simp
next
  case (3 attrs tcs nestedTestSuites rest suiteResults d)
  let ?ts = "TestSuite attrs tcs nestedTestSuites"
  let ?sr = "\<lparr>suite_name = trim (ts_name attrs), groups = getGroups ?ts,
              suite_totalTime = js_times (parseFloat (ts_duration attrs)) (Finite 1000),
              depth = d\<rparr>"
  let ?pushed = "suiteResults @ [?sr]"
  let ?descended = "if length (getGroups ?ts) = 0
                    then (if nestedTestSuites \<noteq> None
                          then getTestSuiteResultRecursive nestedTestSuites ?pushed (d + 1)
                          else ?pushed)
                    else ?pushed"
  have g: "getGroups_raw (RawTestSuite
             (Some \<lparr>raw_ts_name = Some (ts_name attrs),
                    raw_ts_duration = Some (ts_duration attrs)\<rparr>)
             (map_option (map raw_case) tcs)
             (map_option (map raw_suite) nestedTestSuites)) = Inr (getGroups ?ts)"
    using getGroups_raw_typed [of ?ts] by simp
  have nested: "getTestSuiteResultRecursive_raw (map_option (map raw_suite) nestedTestSuites)
                  ?pushed (d + 1) =
                Inr (getTestSuiteResultRecursive nestedTestSuites ?pushed (d + 1))"
    if "length (getGroups ?ts) = 0" "nestedTestSuites \<noteq> None"
    using "3.IH"(1) [OF refl refl refl refl refl refl] that by simp
  have rest: "getTestSuiteResultRecursive_raw (map_option (map raw_suite) (Some rest))
                ?descended d =
              Inr (getTestSuiteResultRecursive (Some rest) ?descended d)"
    using "3.IH"(2) [OF refl refl refl refl refl refl refl] by simp
  let ?step = "if length (getGroups ?ts) = 0 \<and> map_option (map raw_suite) nestedTestSuites \<noteq> None
               then getTestSuiteResultRecursive_raw (map_option (map raw_suite) nestedTestSuites)
                      ?pushed (d + 1)
               else Inr ?pushed"
  have lhs: "getTestSuiteResultRecursive_raw (map_option (map raw_suite) (Some (?ts # rest)))
               suiteResults d =
             (case ?step of
                Inl e \<Rightarrow> Inl e
              | Inr descended \<Rightarrow>
                  getTestSuiteResultRecursive_raw (Some (map raw_suite rest)) descended d)"
    by (simp add: g to_string_def)
  have step: "?step = Inr ?descended"
    using nested by auto
  have rhs: "getTestSuiteResultRecursive (Some (?ts # rest)) suiteResults d =
             getTestSuiteResultRecursive (Some rest) ?descended d"
    by (simp add: Let_def)
  show ?case
    unfolding lhs step rhs using rest by simp
qed

lemma getTestRunResult_raw_typed:
  "getTestRunResult_raw filePath (raw_report nunit) = Inr (getTestRunResult filePath nunit)"
  by (simp add: getTestRunResult_raw_def getTestRunResult_def raw_report_def traversal_typed
        Let_def)

subsection \<open>Reports that lack a part\<close>

lemma collect_Inr_iff: "(\<exists>ys. collect rs = Inr ys) \<longleftrightarrow> (\<forall>r \<in> set rs. \<exists>y. r = Inr y)"
  by (induction rs rule: collect.induct) (auto split: sum.splits)

lemma collect_Inl_mem: "collect rs = Inl e \<Longrightarrow> Inl e \<in> set rs"
  by (induction rs rule: collect.induct) (auto split: sum.splits)

lemma collect_length: "collect rs = Inr ys \<Longrightarrow> length ys = length rs"
  by (induction rs arbitrary: ys rule: collect.induct) (auto split: sum.splits)

lemma getTestCaseResult_raw_attrs:
  "raw_tc_attrs tc = Some a \<Longrightarrow> \<exists>r. getTestCaseResult_raw tc = Inr r"
  by (simp add: getTestCaseResult_raw_def)

lemma test_result_raw_readable: "case_readable tc \<Longrightarrow> \<exists>r. test_result_raw tc = Inr r"
proof -
  assume "case_readable tc"
  then obtain a n where a: "raw_tc_attrs tc = Some a" and n: "raw_tc_name a = Some n"
    by (auto simp: case_readable_def split: option.splits)
  from getTestCaseResult_raw_attrs [OF a] obtain r where "getTestCaseResult_raw tc = Inr r"
    by blast
  with a n show ?thesis
    by (simp add: test_result_raw_def)
qed

lemma test_result_raw_error: "test_result_raw tc = Inl e \<Longrightarrow> e = TypeError \<and> \<not> case_readable tc"
proof -
  assume e: "test_result_raw tc = Inl e"
  have "\<not> case_readable tc"
    using e test_result_raw_readable [of tc] by auto
  moreover have "e = TypeError"
  proof (cases "raw_tc_attrs tc")
    case None
    with e show ?thesis by (simp add: test_result_raw_def)
  next
    case (Some a)
    from getTestCaseResult_raw_attrs [OF Some] obtain r where "getTestCaseResult_raw tc = Inr r"
      by blast
    with e Some show ?thesis
      by (cases "raw_tc_name a") (simp_all add: test_result_raw_def)
  qed
  ultimately show ?thesis by simp
qed

lemma test_result_raw_Inr_iff: "(\<exists>y. test_result_raw tc = Inr y) \<longleftrightarrow> case_readable tc"
proof
  assume "\<exists>y. test_result_raw tc = Inr y"
  then show "case_readable tc"
    using test_result_raw_readable [of tc] test_result_raw_error [of tc]
    by (cases "case_readable tc") (auto simp: case_readable_def test_result_raw_def
          split: option.splits)
next
  assume "case_readable tc"
  then show "\<exists>y. test_result_raw tc = Inr y"
    by (rule test_result_raw_readable)
qed

lemma test_results_readable:
  "(\<exists>rs. collect (map test_result_raw cs) = Inr rs) \<longleftrightarrow> list_all case_readable cs"
proof -
  have "(\<exists>rs. collect (map test_result_raw cs) = Inr rs) \<longleftrightarrow>
        (\<forall>r \<in> set (map test_result_raw cs). \<exists>y. r = Inr y)"
    by (rule collect_Inr_iff)
  also have "\<dots> \<longleftrightarrow> (\<forall>tc \<in> set cs. \<exists>y. test_result_raw tc = Inr y)"
    by simp
  also have "\<dots> \<longleftrightarrow> (\<forall>tc \<in> set cs. case_readable tc)"
    by (simp only: test_result_raw_Inr_iff)
  also have "\<dots> \<longleftrightarrow> list_all case_readable cs"
    by (simp add: list_all_iff)
  finally show ?thesis .
qed

lemma test_results_error: "collect (map test_result_raw cs) = Inl e \<Longrightarrow> e = TypeError"
proof -
  assume "collect (map test_result_raw cs) = Inl e"
  from collect_Inl_mem [OF this] obtain tc where "test_result_raw tc = Inl e"
    by auto
  then show ?thesis
    using test_result_raw_error by blast
qed

lemma push_test_raw_tests:
  "(\<Union>g \<in> set (push_test_raw cn tc gs). set (raw_grp_tests g)) =
     insert tc (\<Union>g \<in> set gs. set (raw_grp_tests g))"
  by (induction gs) auto

lemma push_test_raw_not_Nil: "push_test_raw cn tc gs \<noteq> []"
  by (cases gs) simp_all

lemma group_cases_attrs:
  "list_all (\<lambda>tc. raw_tc_attrs tc \<noteq> None) tcs \<Longrightarrow>
   \<exists>gs. group_cases grps tcs = Inr gs
     \<and> (\<Union>g \<in> set gs. set (raw_grp_tests g)) = (\<Union>g \<in> set grps. set (raw_grp_tests g)) \<union> set tcs
     \<and> (gs = [] \<longleftrightarrow> grps = [] \<and> tcs = [])"
proof (induction tcs arbitrary: grps)
  case Nil
  show ?case by simp
next
  case (Cons tc tcs)
  from Cons.prems obtain a where a: "raw_tc_attrs tc = Some a"
    and rest: "list_all (\<lambda>tc. raw_tc_attrs tc \<noteq> None) tcs"
    by auto
  from Cons.IH [OF rest, of "push_test_raw (raw_classname a) tc grps"] obtain gs
    where gs: "group_cases (push_test_raw (raw_classname a) tc grps) tcs = Inr gs"
      and tests: "(\<Union>g \<in> set gs. set (raw_grp_tests g)) =
                    (\<Union>g \<in> set (push_test_raw (raw_classname a) tc grps). set (raw_grp_tests g))
                    \<union> set tcs"
      and nil: "gs = [] \<longleftrightarrow> push_test_raw (raw_classname a) tc grps = [] \<and> tcs = []"
    by blast
  have "group_cases grps (tc # tcs) = Inr gs"
    using a gs by simp
  moreover have "(\<Union>g \<in> set gs. set (raw_grp_tests g)) =
                   (\<Union>g \<in> set grps. set (raw_grp_tests g)) \<union> set (tc # tcs)"
    unfolding tests push_test_raw_tests by auto
  moreover have "gs \<noteq> []"
    using nil push_test_raw_not_Nil by blast
  ultimately show ?case by simp
qed

lemma group_cases_no_attrs:
  "\<not> list_all (\<lambda>tc. raw_tc_attrs tc \<noteq> None) tcs \<Longrightarrow> group_cases grps tcs = Inl TypeError"
  by (induction tcs arbitrary: grps) (auto split: option.splits)

lemma case_readable_attrs: "case_readable tc \<Longrightarrow> raw_tc_attrs tc \<noteq> None"
  by (auto simp: case_readable_def split: option.splits)

lemma getGroups_raw_readable:
  assumes "list_all case_readable (case raw_test_case suite of None \<Rightarrow> [] | Some cases \<Rightarrow> cases)"
  shows "\<exists>grps. getGroups_raw suite = Inr grps
           \<and> (length grps = 0 \<longleftrightarrow> raw_test_case suite = None \<or> raw_test_case suite = Some [])"
proof (cases "raw_test_case suite")
  case None
  then show ?thesis by (simp add: getGroups_raw_def)
next
  case (Some tcs)
  let ?f = "\<lambda>grp. case collect (map test_result_raw (raw_grp_tests grp)) of
                    Inl e \<Rightarrow> Inl e
                  | Inr results \<Rightarrow> Inr \<lparr>group_name = raw_describe grp, group_tests = results\<rparr>"
  from assms Some have r: "list_all case_readable tcs" by simp
  then have "list_all (\<lambda>tc. raw_tc_attrs tc \<noteq> None) tcs"
    using case_readable_attrs by (auto simp: list_all_iff)
  from group_cases_attrs [OF this, of "[]"] obtain gs
    where gs: "group_cases [] tcs = Inr gs"
      and tests: "(\<Union>g \<in> set gs. set (raw_grp_tests g)) = set tcs"
      and nil: "gs = [] \<longleftrightarrow> tcs = []"
    by auto
  have "\<exists>y. ?f g = Inr y" if "g \<in> set gs" for g
  proof -
    from that tests r have "list_all case_readable (raw_grp_tests g)"
      by (auto simp: list_all_iff)
    then obtain rs where "collect (map test_result_raw (raw_grp_tests g)) = Inr rs"
      using test_results_readable by blast
    then show ?thesis by simp
  qed
  then have "\<forall>r \<in> set (map ?f gs). \<exists>y. r = Inr y"
    by auto
  then obtain grps where grps: "collect (map ?f gs) = Inr grps"
    using collect_Inr_iff by blast
  from collect_length [OF grps] nil have "length grps = 0 \<longleftrightarrow> tcs = []"
    by simp
  with grps gs Some show ?thesis
    by (simp add: getGroups_raw_def)
qed

lemma getGroups_raw_unreadable:
  assumes "\<not> list_all case_readable
               (case raw_test_case suite of None \<Rightarrow> [] | Some cases \<Rightarrow> cases)"
  shows "getGroups_raw suite = Inl TypeError"
proof (cases "raw_test_case suite")
  case None
  with assms show ?thesis by simp
next
  case (Some tcs)
  let ?f = "\<lambda>grp. case collect (map test_result_raw (raw_grp_tests grp)) of
                    Inl e \<Rightarrow> Inl e
                  | Inr results \<Rightarrow> Inr \<lparr>group_name = raw_describe grp, group_tests = results\<rparr>"
  from assms Some obtain tc where tc: "tc \<in> set tcs" "\<not> case_readable tc"
    by (auto simp: list_all_iff)
  show ?thesis
  proof (cases "list_all (\<lambda>tc. raw_tc_attrs tc \<noteq> None) tcs")
    case False
    from group_cases_no_attrs [OF False, of "[]"] Some show ?thesis
      by (simp add: getGroups_raw_def)
  next
    case True
    from group_cases_attrs [OF True, of "[]"] obtain gs
      where gs: "group_cases [] tcs = Inr gs"
        and tests: "(\<Union>g \<in> set gs. set (raw_grp_tests g)) = set tcs"
      by auto
    from tests tc obtain g where g: "g \<in> set gs" "tc \<in> set (raw_grp_tests g)"
      by blast
    have err: "e = TypeError" if "?f grp = Inl e" for grp e
      using that test_results_error [of "raw_grp_tests grp" e] by (auto split: sum.splits)
    from g tc have "\<not> list_all case_readable (raw_grp_tests g)"
      by (auto simp: list_all_iff)
    then have "\<not> (\<exists>rs. collect (map test_result_raw (raw_grp_tests g)) = Inr rs)"
      using test_results_readable by blast
    then have "\<not> (\<exists>y. ?f g = Inr y)"
      by (auto split: sum.splits)
    with g have "\<not> (\<forall>r \<in> set (map ?f gs). \<exists>y. r = Inr y)"
      by auto
    then have "\<not> (\<exists>ys. collect (map ?f gs) = Inr ys)"
      using collect_Inr_iff by blast
    then obtain e where e: "collect (map ?f gs) = Inl e"
      by (cases "collect (map ?f gs)") auto
    from collect_Inl_mem [OF e] have "\<exists>grp \<in> set gs. Inl e = ?f grp"
      by (simp only: set_map image_iff)
    then obtain grp where "grp \<in> set gs" and "Inl e = ?f grp" ..
    from err [OF this(2) [symmetric]] e gs Some show ?thesis
      by (simp add: getGroups_raw_def)
  qed
qed

lemma traversal_raw_readable:
  "\<forall>suiteResults d.
     (suites_readable tss \<longrightarrow>
        (\<exists>r. getTestSuiteResultRecursive_raw tss suiteResults d = Inr r))
     \<and> (\<not> suites_readable tss \<longrightarrow>
          getTestSuiteResultRecursive_raw tss suiteResults d = Inl TypeError)"
proof (induction tss rule: suites_readable.induct)
  case 1
  show ?case by simp
next
  case 2
  show ?case by simp
next
  case (3 attrs tcs nestedTestSuites rest)
  let ?ts = "RawTestSuite attrs tcs nestedTestSuites"
  show ?case
  proof (intro allI)
    fix suiteResults d
    show "(suites_readable (Some (?ts # rest)) \<longrightarrow>
             (\<exists>r. getTestSuiteResultRecursive_raw (Some (?ts # rest)) suiteResults d = Inr r))
          \<and> (\<not> suites_readable (Some (?ts # rest)) \<longrightarrow>
               getTestSuiteResultRecursive_raw (Some (?ts # rest)) suiteResults d =
                 Inl TypeError)"
    proof (cases attrs)
      case None
      then show ?thesis by simp
    next
      case (Some a)
      show ?thesis
      proof (cases "raw_ts_name a")
        case None
        with Some show ?thesis by simp
      next
        case name: (Some n)
        show ?thesis
        proof (cases "list_all case_readable (case tcs of None \<Rightarrow> [] | Some cases \<Rightarrow> cases)")
          case False
          then have "getGroups_raw ?ts = Inl TypeError"
            using getGroups_raw_unreadable [of ?ts] by simp
          with False Some name show ?thesis by simp
        next
          case True
          from getGroups_raw_readable [of ?ts] True obtain grps
            where grps: "getGroups_raw ?ts = Inr grps"
              and len: "length grps = 0 \<longleftrightarrow> tcs = None \<or> tcs = Some []"
            by auto
          let ?pushed = "suiteResults
                 @ [\<lparr>suite_name = trim n, groups = grps,
                      suite_totalTime =
                        js_times (parseFloat (to_string (raw_ts_duration a))) (Finite 1000),
                      depth = d\<rparr>]"
          let ?step = "if length grps = 0 \<and> nestedTestSuites \<noteq> None
                       then getTestSuiteResultRecursive_raw nestedTestSuites ?pushed (d + 1)
                       else Inr ?pushed"
          have unfold: "getTestSuiteResultRecursive_raw (Some (?ts # rest)) suiteResults d =
                  (case ?step of
                     Inl e \<Rightarrow> Inl e
                   | Inr descended \<Rightarrow> getTestSuiteResultRecursive_raw (Some rest) descended d)"
            using Some name grps by simp
          have readable: "suites_readable (Some (?ts # rest)) \<longleftrightarrow>
                  (if tcs = None \<or> tcs = Some [] then suites_readable nestedTestSuites else True)
                  \<and> suites_readable (Some rest)"
            using Some name True by simp
          show ?thesis
          proof (cases "tcs = None \<or> tcs = Some []")
            case leaf: False
            with len have "?step = Inr ?pushed" by simp
            with unfold
            have eq: "getTestSuiteResultRecursive_raw (Some (?ts # rest)) suiteResults d =
                   getTestSuiteResultRecursive_raw (Some rest) ?pushed d"
              by simp
            from readable leaf
            have rd: "suites_readable (Some (?ts # rest)) \<longleftrightarrow> suites_readable (Some rest)"
              by (simp del: suites_readable.simps)
            show ?thesis
              unfolding eq rd using "3.IH"(2) by blast
          next
            case inner: True
            show ?thesis
            proof (cases "suites_readable nestedTestSuites")
              case False
              then have "nestedTestSuites \<noteq> None" by (cases nestedTestSuites) simp_all
              with inner len False "3.IH"(1) [OF inner] have "?step = Inl TypeError"
                by simp
              with unfold
              have eq: "getTestSuiteResultRecursive_raw (Some (?ts # rest)) suiteResults d =
                          Inl TypeError"
                by simp
              from readable inner False have rd: "\<not> suites_readable (Some (?ts # rest))"
                by (simp del: suites_readable.simps)
              from eq rd show ?thesis by blast
            next
              case True
              have "\<exists>r. ?step = Inr r"
                using "3.IH"(1) [OF inner] True by simp
              then obtain r where "?step = Inr r" by blast
              with unfold
              have eq: "getTestSuiteResultRecursive_raw (Some (?ts # rest)) suiteResults d =
                   getTestSuiteResultRecursive_raw (Some rest) r d"
                by simp
              from readable inner True
              have rd: "suites_readable (Some (?ts # rest)) \<longleftrightarrow> suites_readable (Some rest)"
                by (simp del: suites_readable.simps)
              show ?thesis
                unfolding eq rd using "3.IH"(2) by blast
            qed
          qed
        qed
      qed
    qed
  qed
qed

lemma getTestRunResult_raw_readable:
  "(report_readable nunit \<longrightarrow> (\<exists>r. getTestRunResult_raw filePath nunit = Inr r))
   \<and> (\<not> report_readable nunit \<longrightarrow> getTestRunResult_raw filePath nunit = Inl TypeError)"
proof (cases "raw_test_run nunit")
  case None
  then show ?thesis
    by (simp add: report_readable_def getTestRunResult_raw_def)
next
  case (Some run)
  show ?thesis
  proof (cases "suites_readable (raw_run_test_suite run)")
    case True
    with traversal_raw_readable obtain r
      where "getTestSuiteResultRecursive_raw (raw_run_test_suite run) [] 0 = Inr r"
      by blast
    with Some True show ?thesis
      by (simp add: report_readable_def getTestRunResult_raw_def Let_def)
  next
    case False
    with traversal_raw_readable
    have "getTestSuiteResultRecursive_raw (raw_run_test_suite run) [] 0 = Inl TypeError"
      by blast
    with Some False show ?thesis
      by (simp add: report_readable_def getTestRunResult_raw_def)
  qed
qed

subsection \<open>Failure of the operation\<close>

lemma plain_split_lines:
  "split_lines (js ''expected 1 but was 2'') = [js ''expected 1 but was 2'']"
  by (simp add: split_lines_def js_def)

lemma plain_match: "match_re (js ''expected 1 but was 2'') = None"
  by (simp add: match_re_eval)

lemma plain_source:
  "exceptionThrowSource example_parser (js ''expected 1 but was 2'') = Inr None"
  by (simp add: exceptionThrowSource_def plain_split_lines plain_match)

lemma to_double_half: "to_double (1 / 2) = Finite (1 / 2)"
  by code_simp

lemma to_double_500: "to_double 500 = Finite 500"
  by code_simp

lemma parseFloat_half: "parseFloat (js ''0.5'') = Finite (1 / 2)"
  by (simp add: parseFloat_eval to_double_half)

lemma trim_example: "trim (js '' baz passes '') = js ''baz passes''"
  by (simp add: trim_def is_js_whitespace_def js_def)

lemma trim_BarTest: "trim (js ''BarTest'') = js ''BarTest''"
  by (simp add: trim_def is_js_whitespace_def js_def)

lemma example_report_result:
  "getTestRunResult filePath example_report =
     \<lparr>run_path = filePath,
      suites =
        [\<lparr>suite_name = js ''BarTest'',
          groups =
            [\<lparr>group_name = Some (js ''com.foo.BarTest''),
              group_tests =
                [\<lparr>case_name = js ''baz passes'', case_result = Success,
                  case_time = Finite 500, case_error = None\<rparr>]\<rparr>],
          suite_totalTime = Finite 500, depth = 0\<rparr>],
      run_totalTime = Some (Finite 1500)\<rparr>"
proof -
  have r: "js ''Passed'' \<noteq> js ''Skipped''"
    by (simp add: js_inj)
  show ?thesis
    using r
    by (simp add: getTestRunResult_def example_report_def Let_def getGroups_def test_result_def
          getTestCaseResult_def to_string_def isNaN_def parseFloat_half parseFloat_one_and_a_half
          to_double_500 to_double_1500 trim_example trim_BarTest)
qed

text \<open>
  Claim C9, amended. The parse operation fails with the error
  \<^verbatim>\<open>Invalid XML at\<close>, the source label, an empty line and the cause exactly
  when the deserialization of the report text fails. When the deserializer
  delivers a report of the declared type, the operation returns the run result
  of that report. Whatever the deserializer delivers, the operation returns a
  result exactly when the delivered report has its \<^verbatim>\<open>test-run\<close> root, every
  suite that the traversal visits has its attributes with a name, and every
  test case of such a suite has its attributes with a name; otherwise it
  fails with a \<^verbatim>\<open>TypeError\<close>. The other parts may be missing: a report
  without run attributes and without suites gives a run with no suites and no
  duration; a suite without duration, test cases and nested suites gives a
  result with no groups whose duration is \<open>NaN\<close>; and a failure whose stack
  trace resolves to no tracked file still gives an error, with details and
  message and without path and line.
\<close>

theorem parse_fails_iff_deserialization_fails:
  "((\<exists>msg. parse parseStringPromise render filePath content = Inl (Error msg))
      \<longleftrightarrow> (\<exists>e. parseStringPromise content = Inl e))
   \<and> (parseStringPromise content = Inl e \<longrightarrow>
        parse parseStringPromise render filePath content =
          Inl (Error (js ''Invalid XML at '' @ filePath @ [10, 10] @ render e)))
   \<and> (parseStringPromise content = Inr (raw_report report) \<longrightarrow>
        parse parseStringPromise render filePath content = Inr (getTestRunResult filePath report))
   \<and> (parseStringPromise content = Inr delivered \<longrightarrow>
        ((\<exists>res. parse parseStringPromise render filePath content = Inr res)
           \<longleftrightarrow> report_readable delivered)
        \<and> (parse parseStringPromise render filePath content = Inl TypeError
             \<longleftrightarrow> \<not> report_readable delivered))
   \<and> getTestRunResult_raw filePath
        \<lparr>raw_test_run = Some \<lparr>raw_run_attrs = None, raw_run_test_suite = None\<rparr>\<rparr> =
       Inr \<lparr>run_path = filePath, suites = [], run_totalTime = None\<rparr>
   \<and> getTestSuiteResultRecursive_raw
        (Some [RawTestSuite (Some \<lparr>raw_ts_name = Some n, raw_ts_duration = None\<rparr>) None None])
        [] 0 =
       Inr [\<lparr>suite_name = trim n, groups = [], suite_totalTime = NaN, depth = 0\<rparr>]
   \<and> (parseErrors (options this) \<and> raw_failure tc = Some (FailureObject (Some trace) msg)
        \<and> exceptionThrowSource this trace = Inr None \<longrightarrow>
        getTestCaseError this tc =
          Inr (Some \<lparr>path = None, line = None, details = trace, error_message = msg\<rparr>))"
proof -
  have a: "(\<exists>msg. parse parseStringPromise render filePath content = Inl (Error msg))
      \<longleftrightarrow> (\<exists>e. parseStringPromise content = Inl e)"
  proof (cases "parseStringPromise content")
    case (Inl e)
    then show ?thesis by (simp add: parse_def getNunitReport_def)
  next
    case (Inr delivered)
    have "parse parseStringPromise render filePath content \<noteq> Inl (Error msg)" for msg
      using getTestRunResult_raw_readable [of delivered filePath] Inr
      by (cases "report_readable delivered") (auto simp: parse_def getNunitReport_def)
    with Inr show ?thesis by simp
  qed
  have b: "parse parseStringPromise render filePath content =
             Inl (Error (js ''Invalid XML at '' @ filePath @ [10, 10] @ render e))"
    if "parseStringPromise content = Inl e"
    using that by (simp add: parse_def getNunitReport_def)
  have c: "parse parseStringPromise render filePath content =
             Inr (getTestRunResult filePath report)"
    if "parseStringPromise content = Inr (raw_report report)"
    using that by (simp add: parse_def getNunitReport_def getTestRunResult_raw_typed)
  have d: "((\<exists>res. parse parseStringPromise render filePath content = Inr res)
             \<longleftrightarrow> report_readable delivered)
           \<and> (parse parseStringPromise render filePath content = Inl TypeError
                \<longleftrightarrow> \<not> report_readable delivered)"
    if "parseStringPromise content = Inr delivered"
    using that getTestRunResult_raw_readable [of delivered filePath]
    by (cases "report_readable delivered") (auto simp: parse_def getNunitReport_def)
  have f: "getTestRunResult_raw filePath
             \<lparr>raw_test_run = Some \<lparr>raw_run_attrs = None, raw_run_test_suite = None\<rparr>\<rparr> =
           Inr \<lparr>run_path = filePath, suites = [], run_totalTime = None\<rparr>"
    by (simp add: getTestRunResult_raw_def Let_def to_string_def isNaN_def parseFloat_undefined)
  have g: "getTestSuiteResultRecursive_raw
        (Some [RawTestSuite (Some \<lparr>raw_ts_name = Some n, raw_ts_duration = None\<rparr>) None None])
        [] 0 =
       Inr [\<lparr>suite_name = trim n, groups = [], suite_totalTime = NaN, depth = 0\<rparr>]"
    by (simp add: getGroups_raw_def to_string_def parseFloat_undefined)
  have h: "getTestCaseError this tc =
          Inr (Some \<lparr>path = None, line = None, details = trace, error_message = msg\<rparr>)"
    if "parseErrors (options this) \<and> raw_failure tc = Some (FailureObject (Some trace) msg)
        \<and> exceptionThrowSource this trace = Inr None"
    using that by (simp add: getTestCaseError_def)
  from a b c d f g h show ?thesis by blast
qed

theorem parse_fails_iff_deserialization_fails_witness:
  "example_deserializer (js ''<test-run'') = Inl (js ''Error: Unclosed root tag'')
   \<and> parse example_deserializer id (js ''report.xml'') (js ''<test-run'') =
       Inl (Error (js ''Invalid XML at '' @ js ''report.xml'' @ [10, 10]
                   @ js ''Error: Unclosed root tag''))
   \<and> example_deserializer (js ''<test-run>...</test-run>'') = Inr (raw_report example_report)
   \<and> report_readable (raw_report example_report)
   \<and> parse example_deserializer id (js ''report.xml'') (js ''<test-run>...</test-run>'') =
       Inr \<lparr>run_path = js ''report.xml'',
            suites =
              [\<lparr>suite_name = js ''BarTest'',
                groups =
                  [\<lparr>group_name = Some (js ''com.foo.BarTest''),
                    group_tests =
                      [\<lparr>case_name = js ''baz passes'', case_result = Success,
                        case_time = Finite 500, case_error = None\<rparr>]\<rparr>],
                suite_totalTime = Finite 500, depth = 0\<rparr>],
            run_totalTime = Some (Finite 1500)\<rparr>
   \<and> parseErrors (options example_parser)
   \<and> raw_failure (raw_case example_plain_case) =
       Some (FailureObject (Some (js ''expected 1 but was 2'')) (Some (js ''boom'')))
   \<and> exceptionThrowSource example_parser (js ''expected 1 but was 2'') = Inr None
   \<and> getTestCaseError example_parser (raw_case example_plain_case) =
       Inr (Some \<lparr>path = None, line = None, details = js ''expected 1 but was 2'',
                  error_message = Some (js ''boom'')\<rparr>)"
proof -
  have f: "example_deserializer (js ''<test-run'') = Inl (js ''Error: Unclosed root tag'')"
    by (simp add: example_deserializer_def)
  have s: "example_deserializer (js ''<test-run>...</test-run>'') =
             Inr (raw_report example_report)"
    by (simp add: example_deserializer_def js_inj)
  have c: "raw_failure (raw_case example_plain_case) =
             Some (FailureObject (Some (js ''expected 1 but was 2'')) (Some (js ''boom'')))"
    by (simp add: raw_case_def example_plain_case_def)
  note t1 = parse_fails_iff_deserialization_fails
    [of example_deserializer id "js ''report.xml''" "js ''<test-run''"
        "js ''Error: Unclosed root tag''" undefined undefined undefined example_parser
        "raw_case example_plain_case" "js ''expected 1 but was 2''" "Some (js ''boom'')"]
  note t2 = parse_fails_iff_deserialization_fails
    [of example_deserializer id "js ''report.xml''" "js ''<test-run>...</test-run>''"
        undefined example_report "raw_report example_report"]
  from t1 f have p1: "parse example_deserializer id (js ''report.xml'') (js ''<test-run'') =
       Inl (Error (js ''Invalid XML at '' @ js ''report.xml'' @ [10, 10]
                   @ js ''Error: Unclosed root tag''))"
    by simp
  from t2 s
  have p2: "parse example_deserializer id (js ''report.xml'') (js ''<test-run>...</test-run>'') =
              Inr (getTestRunResult (js ''report.xml'') example_report)"
    by blast
  from t2 s p2 have p3: "report_readable (raw_report example_report)"
    by blast
  from t1 example_parseErrors c plain_source
  have p4: "getTestCaseError example_parser (raw_case example_plain_case) =
       Inr (Some \<lparr>path = None, line = None, details = js ''expected 1 but was 2'',
                  error_message = Some (js ''boom'')\<rparr>)"
    by blast
  from f s c p1 p2 p3 p4 example_parseErrors plain_source show ?thesis
    by (simp only: example_report_result simp_thms)
qed

text \<open>
  Claim C9 as stated fails for a report that the deserializer delivers without
  a required part. For the text \<^verbatim>\<open><test-run><test-suite/></test-run>\<close> the
  deserialization succeeds: it delivers a run whose only suite has no
  attribute object. The parse operation then fails, with a \<^verbatim>\<open>TypeError\<close> that
  carries neither the source label nor a cause, on reading the name of the
  suite.
\<close>

theorem parse_type_error_counterexample:
  "example_deserializer (js ''<test-run><test-suite/></test-run>'') =
     Inr \<lparr>raw_test_run =
            Some \<lparr>raw_run_attrs = None,
                  raw_run_test_suite = Some [RawTestSuite None None None]\<rparr>\<rparr>
   \<and> (\<nexists>e. example_deserializer (js ''<test-run><test-suite/></test-run>'') = Inl e)
   \<and> parse example_deserializer id (js ''report.xml'')
        (js ''<test-run><test-suite/></test-run>'') = Inl TypeError"
proof -
  have n: "js ''<test-run><test-suite/></test-run>'' \<noteq> js ''<test-run''"
    by (simp add: js_inj)
  have d: "example_deserializer (js ''<test-run><test-suite/></test-run>'') =
             Inr example_bare_suite_report"
    using n by (simp add: example_deserializer_def)
  then have "parse example_deserializer id (js ''report.xml'')
               (js ''<test-run><test-suite/></test-run>'') = Inl TypeError"
    by (simp add: parse_def getNunitReport_def getTestRunResult_raw_def
          example_bare_suite_report_def)
  with d show ?thesis
    by (simp add: example_bare_suite_report_def)
qed

end
